theory Spec2Isabelle
  imports
    Complex_Main
    "HOL-Library.Word"
    "HOL-Library.Char_ord"
    "HOL-Library.List_Lexorder"
    "HOL-Library.Multiset"
begin

section \<open>Conventions of the embedding\<close>

text \<open>
  The development follows the C++ sources \<^verbatim>\<open>FiboHeap.hpp\<close>, \<^verbatim>\<open>Network.cpp\<close>,
  \<^verbatim>\<open>Individual.cpp\<close>, \<^verbatim>\<open>Strategy.cpp\<close> and \<^verbatim>\<open>Model.cpp\<close>.

  \<^item> \<^verbatim>\<open>float\<close> and \<^verbatim>\<open>double\<close> values are modelled by \<^typ>\<open>real\<close>: rounding, infinities
    and NaN are not represented.
  \<^item> \<^verbatim>\<open>unsigned int\<close> counters that the code decrements are \<^typ>\<open>32 word\<close>, so that
    \<^verbatim>\<open>--\<close> on zero wraps as in C++.
  \<^item> Every exception thrown by the code, and every operation whose behaviour is undefined
    in C++ (dereferencing a null pointer, \<^verbatim>\<open>back()\<close> on an empty vector, indexing a vector
    out of range) is a value \<open>Inl e\<close> of the result type \<open>error + 'a\<close>.
  \<^item> A \<^verbatim>\<open>std::map\<close> that the code iterates over is an association list in iteration
    order (increasing keys); a map that is only looked up is a HOL map.
\<close>

datatype error =
    OutOfRange          \<comment> \<open>\<^verbatim>\<open>std::out_of_range\<close> thrown by \<^verbatim>\<open>map::at\<close>\<close>
  | NoMinimum           \<comment> \<open>\<^verbatim>\<open>"no minimum element"\<close>\<close>
  | EmptyHeap           \<comment> \<open>\<^verbatim>\<open>"trying to remove from an empty heap"\<close>\<close>
  | InternalError       \<comment> \<open>\<^verbatim>\<open>"Internal error: should have 0 keys"\<close>\<close>
  | KeyNotDecreasing    \<comment> \<open>\<^verbatim>\<open>"Trying to decrease key to a greater key"\<close>\<close>
  | BadRemoveKey        \<comment> \<open>\<^verbatim>\<open>"2nd argument to remove must be a key that is smaller ..."\<close>\<close>
  | NullPointer         \<comment> \<open>undefined behaviour: null or dangling pointer dereferenced\<close>
  | BadIndex            \<comment> \<open>undefined behaviour: vector read out of range\<close>
  | DivisionByZero      \<comment> \<open>undefined behaviour: integer remainder by zero\<close>

section \<open>FiboHeap.hpp: the Fibonacci heap\<close>

text \<open>
  A heap node carries the fields \<^verbatim>\<open>myKey\<close>, \<^verbatim>\<open>myData\<close> and \<^verbatim>\<open>mark\<close> of the class
  \<^verbatim>\<open>FibonacciHeapNode\<close>. The pointer structure is represented as follows.

  \<^item> \<open>addr\<close> is the address of the node, the value of a \<^verbatim>\<open>PNode\<close> handle.
  \<^item> A circular doubly linked sibling list is the list of its nodes in \<^verbatim>\<open>next\<close> order,
    starting at the node its owner points to. \<open>child\<close> is the sibling list reached from the
    \<^verbatim>\<open>child\<close> pointer (\<open>[]\<close> for \<^verbatim>\<open>NULL\<close>); the \<^verbatim>\<open>parent\<close> pointer of a node is the
    node in whose \<open>child\<close> list it occurs.
  \<^item> The field \<^verbatim>\<open>degree\<close> is written only by \<^verbatim>\<open>addChild\<close> (\<^verbatim>\<open>degree++\<close>) and
    \<^verbatim>\<open>removeChild\<close> (\<^verbatim>\<open>degree--\<close>), together with the child list; it is the length of
    the child list.
\<close>

datatype ('d, 'k) FibonacciHeapNode =
  FNode (addr: nat) (myKey: 'k) (myData: 'd) (mark: bool)
        (child: "('d, 'k) FibonacciHeapNode list")

definition degree :: "('d, 'k) FibonacciHeapNode \<Rightarrow> nat" where
  "degree n = length (child n)"

definition set_mark :: "bool \<Rightarrow> ('d, 'k) FibonacciHeapNode \<Rightarrow> ('d, 'k) FibonacciHeapNode" where
  "set_mark b n = FNode (addr n) (myKey n) (myData n) b (child n)"

definition set_key :: "'k \<Rightarrow> ('d, 'k) FibonacciHeapNode \<Rightarrow> ('d, 'k) FibonacciHeapNode" where
  "set_key k n = FNode (addr n) k (myData n) (mark n) (child n)"

text \<open>
  \<^verbatim>\<open>addChild(other)\<close>: \<open>other\<close> (a single node) becomes the only child, or is spliced in
  right after the first child by \<^verbatim>\<open>child->insert(other)\<close>; its mark is cleared.
\<close>

definition addChild ::
  "('d, 'k) FibonacciHeapNode \<Rightarrow> ('d, 'k) FibonacciHeapNode \<Rightarrow> ('d, 'k) FibonacciHeapNode" where
  "addChild this other =
     FNode (addr this) (myKey this) (myData this) (mark this)
       (case child this of
          [] \<Rightarrow> [set_mark False other]
        | c # cs \<Rightarrow> c # set_mark False other # cs)"

text \<open>
  \<^verbatim>\<open>removeChild(other)\<close> on the parent: the child at address \<open>a\<close> leaves the child list;
  when it was the first child, \<^verbatim>\<open>child\<close> moves to its successor.
\<close>

definition removeChild :: "nat \<Rightarrow> ('d, 'k) FibonacciHeapNode \<Rightarrow> ('d, 'k) FibonacciHeapNode" where
  "removeChild a this =
     FNode (addr this) (myKey this) (myData this) (mark this)
       (filter (\<lambda>c. addr c \<noteq> a) (child this))"

text \<open>All nodes of a tree and of a sibling list, in preorder.\<close>

fun nodesT :: "('d, 'k) FibonacciHeapNode \<Rightarrow> ('d, 'k) FibonacciHeapNode list"
  and nodesF :: "('d, 'k) FibonacciHeapNode list \<Rightarrow> ('d, 'k) FibonacciHeapNode list" where
  "nodesT (FNode a k d m cs) = FNode a k d m cs # nodesF cs"
| "nodesF [] = []"
| "nodesF (t # ts) = nodesT t @ nodesF ts"

text \<open>Following a handle: the node stored at an address.\<close>

definition lookupF ::
  "nat \<Rightarrow> ('d, 'k) FibonacciHeapNode list \<Rightarrow> ('d, 'k) FibonacciHeapNode option" where
  "lookupF a ts = find (\<lambda>n. addr n = a) (nodesF ts)"

text \<open>
  The chain of \<^verbatim>\<open>parent\<close> pointers from the node at address \<open>a\<close>: its parent first, the
  root of its tree last; \<open>Some []\<close> for a root, \<open>None\<close> when the address is not in the heap.
\<close>

fun ancT :: "nat \<Rightarrow> ('d, 'k) FibonacciHeapNode \<Rightarrow> nat list option"
  and ancF :: "nat \<Rightarrow> ('d, 'k) FibonacciHeapNode list \<Rightarrow> nat list option" where
  "ancT a (FNode b k d m cs) =
     (if a = b then Some [] else map_option (\<lambda>p. p @ [b]) (ancF a cs))"
| "ancF a [] = None"
| "ancF a (t # ts) = (case ancT a t of Some p \<Rightarrow> Some p | None \<Rightarrow> ancF a ts)"

text \<open>Writing through a pointer: the node at address \<open>a\<close> is replaced by \<open>f\<close> of it.\<close>

fun updT :: "nat \<Rightarrow> (('d, 'k) FibonacciHeapNode \<Rightarrow> ('d, 'k) FibonacciHeapNode) \<Rightarrow>
             ('d, 'k) FibonacciHeapNode \<Rightarrow> ('d, 'k) FibonacciHeapNode" where
  "updT a f (FNode b k d m cs) =
     (if a = b then f (FNode b k d m cs) else FNode b k d m (map (updT a f) cs))"

definition updF :: "nat \<Rightarrow> (('d, 'k) FibonacciHeapNode \<Rightarrow> ('d, 'k) FibonacciHeapNode) \<Rightarrow>
             ('d, 'k) FibonacciHeapNode list \<Rightarrow> ('d, 'k) FibonacciHeapNode list" where
  "updF a f ts = map (updT a f) ts"

text \<open>
  The class \<^verbatim>\<open>FibonacciHeap\<close>. \<open>rootWithMinKey\<close> is the circular list of roots starting at
  the node the pointer \<^verbatim>\<open>rootWithMinKey\<close> designates (\<open>[]\<close> for \<^verbatim>\<open>NULL\<close>). \<open>fresh\<close> is not
  a field of the class: it is the next address \<^verbatim>\<open>new\<close> hands out.
\<close>

record ('d, 'k) FibonacciHeap =
  rootWithMinKey :: "('d, 'k) FibonacciHeapNode list"
  count_h :: "32 word"
  maxDegree :: nat
  fresh :: nat

definition FibonacciHeap_new :: "('d, 'k) FibonacciHeap" where
  "FibonacciHeap_new = \<lparr>rootWithMinKey = [], count_h = 0, maxDegree = 0, fresh = 0\<rparr>"

text \<open>
  \<^verbatim>\<open>insertNode\<close>: the first node becomes the root list; otherwise
  \<^verbatim>\<open>rootWithMinKey->insert(newNode)\<close> puts the node right after the minimum root, and
  \<^verbatim>\<open>rootWithMinKey\<close> moves to it when its key is strictly smaller.
\<close>

fun insertNode :: "('d, 'k::linorder) FibonacciHeapNode \<Rightarrow> ('d, 'k) FibonacciHeapNode list \<Rightarrow>
                   ('d, 'k) FibonacciHeapNode list" where
  "insertNode newNode [] = [newNode]"
| "insertNode newNode (r # rs) =
     (if myKey newNode < myKey r then newNode # rs @ [r] else r # newNode # rs)"

definition empty_fh :: "('d, 'k) FibonacciHeap \<Rightarrow> bool" where
  "empty_fh h \<longleftrightarrow> count_h h = 0"

definition minimum_fh :: "('d, 'k) FibonacciHeap \<Rightarrow> error + ('d, 'k) FibonacciHeapNode" where
  "minimum_fh h = (case rootWithMinKey h of [] \<Rightarrow> Inl NoMinimum | r # rs \<Rightarrow> Inr r)"

text \<open>
  \<^verbatim>\<open>merge\<close>: \<^verbatim>\<open>rootWithMinKey->insert(other.rootWithMinKey)\<close> is executed first and
  dereferences \<^verbatim>\<open>rootWithMinKey\<close>; the test \<^verbatim>\<open>!rootWithMinKey\<close> comes after it.
\<close>

definition merge_fh ::
  "('d, 'k::linorder) FibonacciHeap \<Rightarrow> ('d, 'k) FibonacciHeap \<Rightarrow> error + ('d, 'k) FibonacciHeap" where
  "merge_fh h other =
     (case rootWithMinKey h of
        [] \<Rightarrow> Inl NullPointer
      | r # rs \<Rightarrow>
          Inr (h\<lparr>rootWithMinKey :=
                   (case rootWithMinKey other of
                      [] \<Rightarrow> r # rs
                    | o1 # os \<Rightarrow>
                        if myKey o1 < myKey r then o1 # os @ rs @ [r]
                        else r # o1 # os @ rs),
                 count_h := count_h h + count_h other,
                 fresh := max (fresh h) (fresh other)\<rparr>))"

text \<open>\<^verbatim>\<open>insert(d, k)\<close> returns the handle of the node it allocates.\<close>

definition insert_fh ::
  "'d \<Rightarrow> 'k::linorder \<Rightarrow> ('d, 'k) FibonacciHeap \<Rightarrow> nat \<times> ('d, 'k) FibonacciHeap" where
  "insert_fh d k h =
     (fresh h,
      h\<lparr>rootWithMinKey := insertNode (FNode (fresh h) k d False []) (rootWithMinKey h),
        count_h := count_h h + 1,
        fresh := fresh h + 1\<rparr>)"

text \<open>
  Phase 2 of \<^verbatim>\<open>deletemin\<close>, the inner \<^verbatim>\<open>while\<close>: as long as \<^verbatim>\<open>degreeRoots\<close> holds
  another root of the current degree, the root with the larger key becomes a child of the
  other one.
\<close>

function link_roots ::
  "('d, 'k::linorder) FibonacciHeapNode option list \<Rightarrow> nat \<Rightarrow> ('d, 'k) FibonacciHeapNode \<Rightarrow>
   error + ('d, 'k) FibonacciHeapNode option list" where
  "link_roots degreeRoots currentDegree current =
     (if length degreeRoots \<le> currentDegree then Inl BadIndex
      else case degreeRoots ! currentDegree of
             None \<Rightarrow> Inr (degreeRoots[currentDegree := Some current])
           | Some other \<Rightarrow>
               link_roots
                 (if length degreeRoots \<le> currentDegree + 1
                  then degreeRoots[currentDegree := None] @ [None]
                  else degreeRoots[currentDegree := None])
                 (currentDegree + 1)
                 (if myKey current > myKey other then addChild other current
                  else addChild current other))"
  by pat_completeness auto

definition pending :: "'a option list \<Rightarrow> nat" where
  "pending xs = length (filter (\<lambda>x. x \<noteq> None) xs)"

lemma pending_update_None:
  "i < length xs \<Longrightarrow> xs ! i = Some y \<Longrightarrow> pending (xs[i := None]) < pending xs"
  unfolding pending_def
proof (induction xs arbitrary: i)
  case Nil
  then show ?case by simp
next
  case (Cons x xs)
  then show ?case by (cases i) auto
qed

lemma pending_append_None: "pending (xs @ [None]) = pending xs"
  by (simp add: pending_def)

termination link_roots
  by (relation "measure (\<lambda>(dr, cd, c). pending dr)")
     (auto simp: not_le pending_append_None intro: pending_update_None)

text \<open>Phase 2, the outer loop over the root list, in \<^verbatim>\<open>next\<close> order.\<close>

fun consolidate ::
  "('d, 'k::linorder) FibonacciHeapNode option list \<Rightarrow> ('d, 'k) FibonacciHeapNode list \<Rightarrow>
   error + ('d, 'k) FibonacciHeapNode option list" where
  "consolidate degreeRoots [] = Inr degreeRoots"
| "consolidate degreeRoots (c # cs) =
     (case link_roots degreeRoots (degree c) c of
        Inl e \<Rightarrow> Inl e
      | Inr dr \<Rightarrow> consolidate dr cs)"

text \<open>Phase 3: the surviving roots are inserted one by one, by increasing degree.\<close>

fun rebuild ::
  "('d, 'k::linorder) FibonacciHeapNode option list \<Rightarrow> ('d, 'k) FibonacciHeapNode list \<Rightarrow>
   ('d, 'k) FibonacciHeapNode list" where
  "rebuild [] rs = rs"
| "rebuild (None # ds) rs = rebuild ds rs"
| "rebuild (Some n # ds) rs = rebuild ds (insertNode n rs)"

fun newMaxDegree :: "'a option list \<Rightarrow> nat \<Rightarrow> nat \<Rightarrow> nat" where
  "newMaxDegree [] d m = m"
| "newMaxDegree (None # ds) d m = newMaxDegree ds (d + 1) m"
| "newMaxDegree (Some n # ds) d m = newMaxDegree ds (d + 1) (if d > m then d else m)"

definition deletemin ::
  "('d, 'k::linorder) FibonacciHeap \<Rightarrow> error + ('d, 'k) FibonacciHeap" where
  "deletemin h =
     (case rootWithMinKey h of
        [] \<Rightarrow> Inl EmptyHeap
      | r # rs \<Rightarrow>
          if child r @ rs = [] then
            (if count_h h - 1 \<noteq> 0 then Inl InternalError
             else Inr (h\<lparr>rootWithMinKey := [], count_h := count_h h - 1\<rparr>))
          else
            (case consolidate (replicate (maxDegree h + 250) None) (child r @ rs) of
               Inl e \<Rightarrow> Inl e
             | Inr dr \<Rightarrow>
                 Inr (h\<lparr>rootWithMinKey := rebuild dr [],
                        count_h := count_h h - 1,
                        maxDegree := newMaxDegree dr 0 0\<rparr>)))"

text \<open>
  \<^verbatim>\<open>decreaseKey\<close>, the \<^verbatim>\<open>for(;;)\<close> loop: \<open>a\<close> is \<^verbatim>\<open>node\<close>, the list is the chain of
  \<^verbatim>\<open>parent\<close> pointers above it. The node is cut from its parent and inserted as a root;
  the loop stops at a parent that is a root or unmarked, and goes on with the parent
  otherwise.
\<close>

fun cascade ::
  "nat \<Rightarrow> nat list \<Rightarrow> ('d, 'k::linorder) FibonacciHeapNode list \<Rightarrow>
   error + ('d, 'k) FibonacciHeapNode list" where
  "cascade a [] rs = Inl NullPointer"
| "cascade a (p # ps) rs =
     (case lookupF a rs of
        None \<Rightarrow> Inl NullPointer
      | Some node \<Rightarrow>
          (case lookupF p (insertNode (set_mark False node) (updF p (removeChild a) rs)) of
             None \<Rightarrow> Inl NullPointer
           | Some parent \<Rightarrow>
               if ps = [] then Inr (insertNode (set_mark False node) (updF p (removeChild a) rs))
               else if \<not> mark parent then
                 Inr (updF p (set_mark True)
                        (insertNode (set_mark False node) (updF p (removeChild a) rs)))
               else cascade p ps (insertNode (set_mark False node) (updF p (removeChild a) rs))))"

text \<open>\<^verbatim>\<open>rootWithMinKey = node\<close> for a root \<open>node\<close>: the root list now starts there.\<close>

definition rotate_to ::
  "nat \<Rightarrow> ('d, 'k) FibonacciHeapNode list \<Rightarrow> ('d, 'k) FibonacciHeapNode list" where
  "rotate_to a rs = dropWhile (\<lambda>n. addr n \<noteq> a) rs @ takeWhile (\<lambda>n. addr n \<noteq> a) rs"

definition decreaseKey ::
  "nat \<Rightarrow> 'k::linorder \<Rightarrow> ('d, 'k) FibonacciHeap \<Rightarrow> error + ('d, 'k) FibonacciHeap" where
  "decreaseKey a newKey h =
     (case lookupF a (rootWithMinKey h) of
        None \<Rightarrow> Inl NullPointer
      | Some node \<Rightarrow>
          if newKey > myKey node then Inl KeyNotDecreasing
          else
            (case ancF a (rootWithMinKey h) of
               None \<Rightarrow> Inl NullPointer
             | Some [] \<Rightarrow>
                 (case updF a (set_key newKey) (rootWithMinKey h) of
                    [] \<Rightarrow> Inl NullPointer
                  | r # rs \<Rightarrow>
                      Inr (h\<lparr>rootWithMinKey :=
                               (if newKey < myKey r then rotate_to a (r # rs) else r # rs)\<rparr>))
             | Some (p # ps) \<Rightarrow>
                 (case lookupF p (rootWithMinKey h) of
                    None \<Rightarrow> Inl NullPointer
                  | Some parent \<Rightarrow>
                      if myKey parent \<le> newKey then
                        Inr (h\<lparr>rootWithMinKey := updF a (set_key newKey) (rootWithMinKey h)\<rparr>)
                      else
                        (case cascade a (p # ps) (updF a (set_key newKey) (rootWithMinKey h)) of
                           Inl e \<Rightarrow> Inl e
                         | Inr rs \<Rightarrow> Inr (h\<lparr>rootWithMinKey := rs\<rparr>)))))"

definition remove_fh ::
  "nat \<Rightarrow> 'k::linorder \<Rightarrow> ('d, 'k) FibonacciHeap \<Rightarrow> error + ('d, 'k) FibonacciHeap" where
  "remove_fh a minusInfinity h =
     (case minimum_fh h of
        Inl e \<Rightarrow> Inl e
      | Inr m \<Rightarrow>
          if minusInfinity \<ge> myKey m then Inl BadRemoveKey
          else (case decreaseKey a minusInfinity h of
                  Inl e \<Rightarrow> Inl e
                | Inr h1 \<Rightarrow> deletemin h1))"

text \<open>The items stored in a heap, with their keys.\<close>

definition elems :: "('d, 'k) FibonacciHeap \<Rightarrow> ('d \<times> 'k) multiset" where
  "elems h = mset (map (\<lambda>n. (myData n, myKey n)) (nodesF (rootWithMinKey h)))"

definition heap_ab :: "(string, real) FibonacciHeap" where
  "heap_ab = snd (insert_fh ''a'' 5 (snd (insert_fh ''b'' 7 FibonacciHeap_new)))"

definition heap_c :: "(string, real) FibonacciHeap" where
  "heap_c = snd (insert_fh ''c'' 3 FibonacciHeap_new)"

section \<open>Network.hpp, Network.cpp: nodes, links and the network\<close>

text \<open>
  \<^verbatim>\<open>std::map<std::string, V>\<close> as an association list in iteration order. \<open>map_at\<close> is
  \<^verbatim>\<open>at\<close>, which throws on a missing key; \<open>map_insert\<close> is \<^verbatim>\<open>insert\<close>, which keeps an
  existing entry; \<open>map_index\<close> is \<^verbatim>\<open>operator[]\<close>, which inserts a default-constructed
  value under a missing key; \<open>map_modify\<close> writes through the reference \<^verbatim>\<open>at\<close> returned.
\<close>

definition map_at :: "('k \<times> 'v) list \<Rightarrow> 'k \<Rightarrow> error + 'v" where
  "map_at m k = (case map_of m k of None \<Rightarrow> Inl OutOfRange | Some v \<Rightarrow> Inr v)"

fun map_insert :: "'k::linorder \<Rightarrow> 'v \<Rightarrow> ('k \<times> 'v) list \<Rightarrow> ('k \<times> 'v) list" where
  "map_insert k v [] = [(k, v)]"
| "map_insert k v ((k', v') # m) =
     (if k < k' then (k, v) # (k', v') # m
      else if k = k' then (k', v') # m
      else (k', v') # map_insert k v m)"

definition map_index ::
  "('k::linorder \<times> 'v) list \<Rightarrow> 'k \<Rightarrow> 'v \<Rightarrow> 'v \<times> ('k \<times> 'v) list" where
  "map_index m k dflt =
     (case map_of m k of Some v \<Rightarrow> (v, m) | None \<Rightarrow> (dflt, map_insert k dflt m))"

definition map_modify :: "'k \<Rightarrow> ('v \<Rightarrow> 'v) \<Rightarrow> ('k \<times> 'v) list \<Rightarrow> ('k \<times> 'v) list" where
  "map_modify k f m = map (\<lambda>(k', v). if k' = k then (k', f v) else (k', v)) m"

record Node =
  node_id :: string
  node_x :: real
  node_y :: real
  links_out_id :: "string list"
  indicators :: "(string \<times> int) list"
  node_x_data :: real
  node_y_data :: real

record Link =
  link_id :: string
  start_node_id :: string
  end_node_id :: string
  link_length :: real
  n_agents :: "32 word"
  free_flow_time :: real
  capacity :: real
  link_x :: real
  link_y :: real

text \<open>The default constructor \<^verbatim>\<open>Link()\<close>, which \<^verbatim>\<open>_Links[id]\<close> runs on a missing key.\<close>

definition Link_default :: Link where
  "Link_default =
     \<lparr>link_id = ''0'', start_node_id = ''0'', end_node_id = ''0'', link_length = 0,
      n_agents = 0, free_flow_time = 0, capacity = 0, link_x = 0, link_y = 0\<rparr>"

text \<open>
  \<^verbatim>\<open>timeOnLink\<close>: \<^verbatim>\<open>_free_flow_time * (1 + 0.15 * pow<4>(_n_agents / _capacity))\<close>. A zero
  capacity is a division by zero.
\<close>

definition timeOnLink :: "Link \<Rightarrow> error + real" where
  "timeOnLink l =
     (if capacity l = 0 then Inl DivisionByZero
      else Inr (free_flow_time l * (1 + 0.15 * (real (unat (n_agents l)) / capacity l) ^ 4)))"

definition increaseAgents :: "Link \<Rightarrow> Link" where
  "increaseAgents l = l\<lparr>n_agents := n_agents l + 1\<rparr>"

definition decrementAgents :: "Link \<Rightarrow> Link" where
  "decrementAgents l = l\<lparr>n_agents := n_agents l - 1\<rparr>"

record Network =
  Nodes :: "(string \<times> Node) list"
  Links :: "(string \<times> Link) list"
  min_x :: real
  max_x :: real
  min_y :: real
  max_y :: real

definition incrementAgentOnLink :: "string \<Rightarrow> Network \<Rightarrow> error + Network" where
  "incrementAgentOnLink aLinkId net =
     (case map_at (Links net) aLinkId of
        Inl e \<Rightarrow> Inl e
      | Inr l \<Rightarrow> Inr (net\<lparr>Links := map_modify aLinkId increaseAgents (Links net)\<rparr>))"

definition decrementAgentOnLink :: "string \<Rightarrow> Network \<Rightarrow> error + Network" where
  "decrementAgentOnLink aLinkId net =
     (case map_at (Links net) aLinkId of
        Inl e \<Rightarrow> Inl e
      | Inr l \<Rightarrow> Inr (net\<lparr>Links := map_modify aLinkId decrementAgents (Links net)\<rparr>))"

text \<open>
  \<^verbatim>\<open>euclidian_distance\<close>: the sum of the absolute coordinate differences of the saved
  coordinates \<^verbatim>\<open>_x_data\<close>, \<^verbatim>\<open>_y_data\<close>. The destination is looked up first.
\<close>

definition euclidian_distance :: "Network \<Rightarrow> string \<Rightarrow> string \<Rightarrow> error + real" where
  "euclidian_distance net source_id dest_id =
     (case map_at (Nodes net) dest_id of
        Inl e \<Rightarrow> Inl e
      | Inr d \<Rightarrow>
          (case map_at (Nodes net) source_id of
             Inl e \<Rightarrow> Inl e
           | Inr s \<Rightarrow>
               Inr (\<bar>node_x_data d - node_x_data s\<bar> + \<bar>node_y_data d - node_y_data s\<bar>)))"

text \<open>
  \<^verbatim>\<open>shuffleNodesCoordinates\<close>: the loop over \<^verbatim>\<open>_Nodes\<close> with the counter \<^verbatim>\<open>cur_node\<close>.
  \<open>n_proc\<close> is \<^verbatim>\<open>RepastProcess::instance()->worldSize()\<close>. The generator \<^verbatim>\<open>rnd\<close> is
  seeded and never read.
\<close>

fun shuffle_loop :: "nat \<Rightarrow> nat \<Rightarrow> (string \<times> Node) list \<Rightarrow> (string \<times> Node) list" where
  "shuffle_loop n_proc cur_node [] = []"
| "shuffle_loop n_proc cur_node ((k, n) # ns) =
     (k, n\<lparr>node_x_data := node_x n, node_y_data := node_y n,
           node_x := real (cur_node mod n_proc) + 0.5, node_y := 0.5\<rparr>)
     # shuffle_loop n_proc (cur_node + 1) ns"

definition shuffleNodesCoordinates :: "nat \<Rightarrow> Network \<Rightarrow> error + Network" where
  "shuffleNodesCoordinates n_proc net =
     (if Nodes net \<noteq> [] \<and> n_proc = 0 then Inl DivisionByZero
      else Inr (net\<lparr>Nodes := shuffle_loop n_proc 0 (Nodes net)\<rparr>))"

section \<open>Strategy.cpp, Trip.hpp\<close>

record Strategy =
  sin_alpha :: real
  cos_alpha :: real
  theta :: real
  optimized :: bool


definition Strategy_new :: "real \<Rightarrow> real \<Rightarrow> Strategy" where
  "Strategy_new alpha th =
     \<lparr>sin_alpha = sin alpha, cos_alpha = cos alpha, theta = th, optimized = True\<rparr>"

definition computeStrategy :: "Strategy \<Rightarrow> real \<Rightarrow> real \<Rightarrow> bool" where
  "computeStrategy s x1 x2 =
     (if (x1 * cos_alpha s + x2 * sin_alpha s) - theta s > 0 then True else False)"

record Trip =
  id_origin :: string
  id_destination :: string
  starting_time :: real

section \<open>Network.cpp: the path planners\<close>

definition FLT_MAX :: real where
  "FLT_MAX = 340282346638528859811704183484516925440"

definition link_cost :: "bool \<Rightarrow> Link \<Rightarrow> real" where
  "link_cost fastest l = (if fastest then free_flow_time l else link_length l)"

definition set_link_cost :: "bool \<Rightarrow> real \<Rightarrow> Link \<Rightarrow> Link" where
  "set_link_cost fastest c l =
     (if fastest then l\<lparr>free_flow_time := c\<rparr> else l\<lparr>link_length := c\<rparr>)"

text \<open>
  Reconstruction of the path, the \<^verbatim>\<open>do ... while (curr_node != source_id)\<close> loop shared
  by \<^verbatim>\<open>computePath\<close> and \<^verbatim>\<open>computePathAStar\<close>. Nothing in the loop bounds the walk along
  \<^verbatim>\<open>prec\<close>, so the function is partial: \<open>None\<close> is a run that does not return.
\<close>

partial_function (option) reconstruct ::
  "(string \<rightharpoonup> string) \<Rightarrow> (string \<times> Link) list \<Rightarrow> string \<Rightarrow> string \<Rightarrow> string list \<Rightarrow>
   (error + string list) option" where
  "reconstruct prec links source_id cur result =
     (case prec cur of
        None \<Rightarrow> Some (Inl OutOfRange)
      | Some lk \<Rightarrow>
          (case map_at links lk of
             Inl e \<Rightarrow> Some (Inl e)
           | Inr l \<Rightarrow>
               if start_node_id l \<noteq> source_id
               then reconstruct prec links source_id (start_node_id l) (result @ [lk])
               else Some (Inr (result @ [lk]))))"

declare reconstruct.simps [code]

subsection \<open>\<^verbatim>\<open>computePath(source_id, dest_id, fastest)\<close>\<close>

record dijkstra_state =
  d_links :: "(string \<times> Link) list"
  d_Q :: "(string, real) FibonacciHeap"
  d_Q_nodes :: "string \<rightharpoonup> nat"
  d_Q_marked :: "string set"
  d_prec :: "string \<rightharpoonup> string"
  d_curr_node :: string

text \<open>Initialisation: every node enters the heap with key \<^verbatim>\<open>numeric_limits<float>::max()\<close>.\<close>

fun dijkstra_init ::
  "(string \<times> Node) list \<Rightarrow> (string, real) FibonacciHeap \<times> (string \<rightharpoonup> nat) \<Rightarrow>
   (string, real) FibonacciHeap \<times> (string \<rightharpoonup> nat)" where
  "dijkstra_init [] (Q, Q_nodes) = (Q, Q_nodes)"
| "dijkstra_init ((k, n) # ns) (Q, Q_nodes) =
     dijkstra_init ns
       (snd (insert_fh k FLT_MAX Q),
        if Q_nodes k = None then Q_nodes(k \<mapsto> fst (insert_fh k FLT_MAX Q)) else Q_nodes)"

text \<open>
  The body of the \<^verbatim>\<open>for\<close> loop over the outgoing links of the extracted node, for the
  link id \<open>lk\<close>; \<open>d\<close> is the key of the extracted node. \<^verbatim>\<open>_Links[lk]\<close> inserts a default
  link under a missing id, and \<^verbatim>\<open>Q_nodes[id]->key()\<close> dereferences a null pointer when
  \<open>id\<close> has no heap node.
\<close>

definition dijkstra_relax :: "bool \<Rightarrow> real \<Rightarrow> string \<Rightarrow> dijkstra_state \<Rightarrow> error + dijkstra_state" where
  "dijkstra_relax fastest d lk st =
     (case map_index (d_links st) lk Link_default of
        (l, links') \<Rightarrow>
          if end_node_id l \<in> d_Q_marked st then Inr (st\<lparr>d_links := links'\<rparr>)
          else
            (case d_Q_nodes st (end_node_id l) of
               None \<Rightarrow> Inl NullPointer
             | Some h \<Rightarrow>
                 (case lookupF h (rootWithMinKey (d_Q st)) of
                    None \<Rightarrow> Inl NullPointer
                  | Some hn \<Rightarrow>
                      if link_cost fastest l + d < myKey hn then
                        (case decreaseKey h (link_cost fastest l + d) (d_Q st) of
                           Inl e \<Rightarrow> Inl e
                         | Inr Q' \<Rightarrow>
                             Inr (st\<lparr>d_links := links', d_Q := Q',
                                     d_prec := (d_prec st)(end_node_id l \<mapsto> lk)\<rparr>))
                      else Inr (st\<lparr>d_links := links'\<rparr>))))"

fun dijkstra_relax_all ::
  "bool \<Rightarrow> real \<Rightarrow> string list \<Rightarrow> dijkstra_state \<Rightarrow> error + dijkstra_state" where
  "dijkstra_relax_all fastest d [] st = Inr st"
| "dijkstra_relax_all fastest d (lk # lks) st =
     (case dijkstra_relax fastest d lk st of
        Inl e \<Rightarrow> Inl e
      | Inr st' \<Rightarrow> dijkstra_relax_all fastest d lks st')"

text \<open>One round of the main loop: read the minimum, relax its links, \<^verbatim>\<open>deletemin\<close>.\<close>

definition dijkstra_step ::
  "(string \<times> Node) list \<Rightarrow> bool \<Rightarrow> dijkstra_state \<Rightarrow> error + dijkstra_state" where
  "dijkstra_step nodes fastest st =
     (case minimum_fh (d_Q st) of
        Inl e \<Rightarrow> Inl e
      | Inr m \<Rightarrow>
          (case map_at nodes (myData m) of
             Inl e \<Rightarrow> Inl e
           | Inr i \<Rightarrow>
               (case dijkstra_relax_all fastest (myKey m) (links_out_id i)
                       (st\<lparr>d_curr_node := myData m,
                           d_Q_marked := insert (myData m) (d_Q_marked st)\<rparr>) of
                  Inl e \<Rightarrow> Inl e
                | Inr st' \<Rightarrow>
                    (case deletemin (d_Q st') of
                       Inl e \<Rightarrow> Inl e
                     | Inr Q' \<Rightarrow> Inr (st'\<lparr>d_Q := Q'\<rparr>)))))"

partial_function (option) dijkstra_loop ::
  "(string \<times> Node) list \<Rightarrow> bool \<Rightarrow> string \<Rightarrow> dijkstra_state \<Rightarrow> (error + dijkstra_state) option" where
  "dijkstra_loop nodes fastest dest_id st =
     (if d_curr_node st = dest_id then Some (Inr st)
      else case dijkstra_step nodes fastest st of
             Inl e \<Rightarrow> Some (Inl e)
           | Inr st' \<Rightarrow> dijkstra_loop nodes fastest dest_id st')"

declare dijkstra_loop.simps [code]

definition dijkstra_start :: "Network \<Rightarrow> string \<Rightarrow> dijkstra_state" where
  "dijkstra_start net source_id =
     (case dijkstra_init (Nodes net) (FibonacciHeap_new, Map.empty) of
        (Q, Q_nodes) \<Rightarrow>
          \<lparr>d_links = Links net,
           d_Q = snd (insert_fh source_id 0 Q),
           d_Q_nodes = Q_nodes(source_id \<mapsto> fst (insert_fh source_id 0 Q)),
           d_Q_marked = {source_id},
           d_prec = Map.empty,
           d_curr_node = source_id\<rparr>)"

text \<open>
  The planner returns the path together with the network, whose \<^verbatim>\<open>_Links\<close> the calls of
  \<^verbatim>\<open>operator[]\<close> may have extended.
\<close>

definition computePath ::
  "Network \<Rightarrow> string \<Rightarrow> string \<Rightarrow> bool \<Rightarrow> (error + string list \<times> Network) option" where
  "computePath net source_id dest_id fastest =
     (case dijkstra_loop (Nodes net) fastest dest_id (dijkstra_start net source_id) of
        None \<Rightarrow> None
      | Some (Inl e) \<Rightarrow> Some (Inl e)
      | Some (Inr st) \<Rightarrow>
          (case reconstruct (d_prec st) (d_links st) source_id (d_curr_node st) [] of
             None \<Rightarrow> None
           | Some (Inl e) \<Rightarrow> Some (Inl e)
           | Some (Inr result) \<Rightarrow> Some (Inr (result, net\<lparr>Links := d_links st\<rparr>))))"

subsection \<open>\<^verbatim>\<open>computePathAStar(source_id, dest_id, fastest)\<close>\<close>

record astar_state =
  a_links :: "(string \<times> Link) list"
  a_Q_open :: "(string, real) FibonacciHeap"
  a_Q_nodes :: "string \<rightharpoonup> nat"
  a_Q_closed :: "string set"
  a_g_score :: "string \<rightharpoonup> real"
  a_prec :: "string \<rightharpoonup> string"
  a_curr_node :: string

text \<open>
  \<^verbatim>\<open>g_score[id]\<close> on a \<^verbatim>\<open>std::map<std::string, float>\<close>: a missing key is inserted with
  the value \<open>0\<close>.
\<close>

definition g_index :: "(string \<rightharpoonup> real) \<Rightarrow> string \<Rightarrow> real \<times> (string \<rightharpoonup> real)" where
  "g_index g k = (case g k of Some v \<Rightarrow> (v, g) | None \<Rightarrow> (0, g(k \<mapsto> 0)))"

text \<open>The body of the \<^verbatim>\<open>for\<close> loop of \<^verbatim>\<open>computePathAStar\<close>, for the link id \<open>lk\<close>.\<close>

definition astar_relax ::
  "Network \<Rightarrow> bool \<Rightarrow> string \<Rightarrow> real \<Rightarrow> string \<Rightarrow> astar_state \<Rightarrow> error + astar_state" where
  "astar_relax net fastest dest_id d lk st =
     (case map_index (a_links st) lk Link_default of
        (l, links') \<Rightarrow>
          if end_node_id l \<in> a_Q_closed st then Inr (st\<lparr>a_links := links'\<rparr>)
          else
            (case a_Q_nodes st (end_node_id l) of
               None \<Rightarrow>
                 (case euclidian_distance net (end_node_id l) dest_id of
                    Inl e \<Rightarrow> Inl e
                  | Inr h \<Rightarrow>
                      Inr (st\<lparr>a_links := links',
                              a_prec := (a_prec st)(end_node_id l \<mapsto> lk),
                              a_g_score := (a_g_score st)(end_node_id l \<mapsto> link_cost fastest l + d),
                              a_Q_nodes := (a_Q_nodes st)(end_node_id l \<mapsto>
                                 fst (insert_fh (end_node_id l) (link_cost fastest l + d + h)
                                        (a_Q_open st))),
                              a_Q_open :=
                                 snd (insert_fh (end_node_id l) (link_cost fastest l + d + h)
                                        (a_Q_open st))\<rparr>))
             | Some pn \<Rightarrow>
                 (case g_index (a_g_score st) (end_node_id l) of
                    (g_old, g') \<Rightarrow>
                      if link_cost fastest l + d < g_old then
                        (case euclidian_distance net (end_node_id l) dest_id of
                           Inl e \<Rightarrow> Inl e
                         | Inr h \<Rightarrow>
                             (case decreaseKey pn (link_cost fastest l + d + h) (a_Q_open st) of
                                Inl e \<Rightarrow> Inl e
                              | Inr Q' \<Rightarrow>
                                  Inr (st\<lparr>a_links := links',
                                          a_prec := (a_prec st)(end_node_id l \<mapsto> lk),
                                          a_g_score := g'(end_node_id l \<mapsto> link_cost fastest l + d),
                                          a_Q_open := Q'\<rparr>)))
                      else Inr (st\<lparr>a_links := links', a_g_score := g'\<rparr>))))"

fun astar_relax_all ::
  "Network \<Rightarrow> bool \<Rightarrow> string \<Rightarrow> real \<Rightarrow> string list \<Rightarrow> astar_state \<Rightarrow> error + astar_state" where
  "astar_relax_all net fastest dest_id d [] st = Inr st"
| "astar_relax_all net fastest dest_id d (lk # lks) st =
     (case astar_relax net fastest dest_id d lk st of
        Inl e \<Rightarrow> Inl e
      | Inr st' \<Rightarrow> astar_relax_all net fastest dest_id d lks st')"

text \<open>
  One round of the main loop: read the minimum, close it, read \<^verbatim>\<open>g_score[curr_node]\<close>,
  \<^verbatim>\<open>deletemin\<close>, then relax the outgoing links.
\<close>

definition astar_step :: "Network \<Rightarrow> bool \<Rightarrow> string \<Rightarrow> astar_state \<Rightarrow> error + astar_state" where
  "astar_step net fastest dest_id st =
     (case minimum_fh (a_Q_open st) of
        Inl e \<Rightarrow> Inl e
      | Inr m \<Rightarrow>
          (case map_at (Nodes net) (myData m) of
             Inl e \<Rightarrow> Inl e
           | Inr i \<Rightarrow>
               (case g_index (a_g_score st) (myData m) of
                  (d, g') \<Rightarrow>
                    (case deletemin (a_Q_open st) of
                       Inl e \<Rightarrow> Inl e
                     | Inr Q' \<Rightarrow>
                         astar_relax_all net fastest dest_id d (links_out_id i)
                           (st\<lparr>a_curr_node := myData m,
                               a_Q_closed := insert (myData m) (a_Q_closed st),
                               a_g_score := g',
                               a_Q_open := Q'\<rparr>)))))"

partial_function (option) astar_loop ::
  "Network \<Rightarrow> bool \<Rightarrow> string \<Rightarrow> astar_state \<Rightarrow> (error + astar_state) option" where
  "astar_loop net fastest dest_id st =
     (if a_curr_node st = dest_id then Some (Inr st)
      else case astar_step net fastest dest_id st of
             Inl e \<Rightarrow> Some (Inl e)
           | Inr st' \<Rightarrow> astar_loop net fastest dest_id st')"

declare astar_loop.simps [code]

definition astar_start :: "Network \<Rightarrow> string \<Rightarrow> real \<Rightarrow> astar_state" where
  "astar_start net source_id h0 =
     \<lparr>a_links = Links net,
      a_Q_open = snd (insert_fh source_id h0 FibonacciHeap_new),
      a_Q_nodes = [source_id \<mapsto> fst (insert_fh source_id h0 (FibonacciHeap_new :: (string, real) FibonacciHeap))],
      a_Q_closed = {},
      a_g_score = [source_id \<mapsto> 0],
      a_prec = Map.empty,
      a_curr_node = source_id\<rparr>"

definition computePathAStar ::
  "Network \<Rightarrow> string \<Rightarrow> string \<Rightarrow> bool \<Rightarrow> (error + string list \<times> Network) option" where
  "computePathAStar net source_id dest_id fastest =
     (if source_id = dest_id then Some (Inr ([], net))
      else
        (case euclidian_distance net source_id dest_id of
           Inl e \<Rightarrow> Some (Inl e)
         | Inr h0 \<Rightarrow>
             (case astar_loop net fastest dest_id (astar_start net source_id h0) of
                None \<Rightarrow> None
              | Some (Inl e) \<Rightarrow> Some (Inl e)
              | Some (Inr st) \<Rightarrow>
                  (case reconstruct (a_prec st) (a_links st) source_id (a_curr_node st) [] of
                     None \<Rightarrow> None
                   | Some (Inl e) \<Rightarrow> Some (Inl e)
                   | Some (Inr result) \<Rightarrow> Some (Inr (result, net\<lparr>Links := a_links st\<rparr>))))))"

subsection \<open>\<^verbatim>\<open>computePath(source_id, dest_id, link_id_to_avoid, fastest)\<close>\<close>

text \<open>
  The cost of the link is saved, set to \<^verbatim>\<open>numeric_limits<float>::max() * 0.5f\<close> for the
  run of \<^verbatim>\<open>computePathAStar\<close>, and written back after it. An exception of the search leaves
  the function before the cost is written back.
\<close>

definition computePath_avoid ::
  "Network \<Rightarrow> string \<Rightarrow> string \<Rightarrow> string \<Rightarrow> bool \<Rightarrow> (error + string list \<times> Network) option" where
  "computePath_avoid net source_id dest_id link_id_to_avoid fastest =
     (case map_at (Links net) link_id_to_avoid of
        Inl e \<Rightarrow> Some (Inl e)
      | Inr l0 \<Rightarrow>
          (case computePathAStar
                  (net\<lparr>Links := map_modify link_id_to_avoid
                                   (set_link_cost fastest (FLT_MAX * 0.5)) (Links net)\<rparr>)
                  source_id dest_id fastest of
             None \<Rightarrow> None
           | Some (Inl e) \<Rightarrow> Some (Inl e)
           | Some (Inr (result, net')) \<Rightarrow>
               (case map_at (Links net') link_id_to_avoid of
                  Inl e \<Rightarrow> Some (Inl e)
                | Inr l1 \<Rightarrow>
                    Some (Inr (result,
                      net'\<lparr>Links := map_modify link_id_to_avoid
                                      (set_link_cost fastest (link_cost fastest l0))
                                      (Links net')\<rparr>)))))"

section \<open>Individual.cpp: the agents\<close>

record Individual =
  agent_id :: int
  trips :: "Trip list"
  ind_x :: real
  ind_y :: real
  remaining_time :: real
  strategy :: Strategy
  path :: "string list"
  en_route :: bool
  at_node :: bool
  cur_link :: string
  size_i :: int
  cur_trip_duration_theo :: real
  n_path_performed :: int
  n_link_in_path :: int

text \<open>
  \<^verbatim>\<open>getNextLinkAndRemove\<close>: \<^verbatim>\<open>_path.back()\<close> and \<^verbatim>\<open>_path.pop_back()\<close>; on an empty path
  the behaviour is undefined.
\<close>

definition getNextLinkAndRemove :: "Individual \<Rightarrow> error + string \<times> Individual" where
  "getNextLinkAndRemove a =
     (if path a = [] then Inl BadIndex
      else Inr (last (path a),
                a\<lparr>path := butlast (path a), n_link_in_path := n_link_in_path a + 1\<rparr>))"

text \<open>
  \<^verbatim>\<open>_cur_link.c_str()\<close> converted back to a \<^verbatim>\<open>std::string\<close>: the characters before the
  first NUL.
\<close>

definition c_str :: "string \<Rightarrow> string" where
  "c_str s = takeWhile (\<lambda>c. c \<noteq> CHR 0x00) s"

text \<open>
  \<^verbatim>\<open>isRerouting\<close>. \<^verbatim>\<open>_trips.front()\<close> on an empty vector is undefined behaviour, and so is
  the division by a zero capacity.
\<close>

definition isRerouting :: "Individual \<Rightarrow> Network \<Rightarrow> real \<Rightarrow> error + bool" where
  "isRerouting a net simulation_time =
     (case (if cur_trip_duration_theo a > 0 then
              (case trips a of
                 [] \<Rightarrow> Inl BadIndex
               | tr # trs \<Rightarrow>
                   Inr ((simulation_time - starting_time tr) / cur_trip_duration_theo a))
            else Inr 0) of
        Inl e \<Rightarrow> Inl e
      | Inr x1 \<Rightarrow>
          (case map_at (Links net) (c_str (cur_link a)) of
             Inl e \<Rightarrow> Inl e
           | Inr l \<Rightarrow>
               if capacity l = 0 then Inl DivisionByZero
               else if real (unat (n_agents l)) / capacity l > 0
                 then Inr (computeStrategy (strategy a) x1 (real (unat (n_agents l)) / capacity l))
                 else Inr False))"

text \<open>
  \<^verbatim>\<open>setNextTrip\<close>. The call \<^verbatim>\<open>network.computePath(origin, destination)\<close> is the plain
  planner with \<^verbatim>\<open>fastest = true\<close>.
\<close>

definition setNextTrip ::
  "Individual \<Rightarrow> Network \<Rightarrow> real \<Rightarrow> (error + Individual \<times> Network) option" where
  "setNextTrip a net t =
     (case trips a of
        [] \<Rightarrow> Some (Inl BadIndex)
      | tr0 # [] \<Rightarrow> Some (Inl BadIndex)
      | tr0 # tr # trs \<Rightarrow>
          (case computePath net (id_origin tr) (id_destination tr) True of
             None \<Rightarrow> None
           | Some (Inl e) \<Rightarrow> Some (Inl e)
           | Some (Inr (p, net')) \<Rightarrow>
               (case map_at (Nodes net') (id_origin tr) of
                  Inl e \<Rightarrow> Some (Inl e)
                | Inr n \<Rightarrow>
                    Some (Inr (a\<lparr>trips := tr # trs,
                                 path := p,
                                 ind_x := node_x n,
                                 ind_y := node_y n,
                                 en_route := False,
                                 at_node := True,
                                 cur_trip_duration_theo := 0,
                                 remaining_time := max (starting_time tr - t) 0,
                                 n_path_performed := n_path_performed a + 1,
                                 n_link_in_path := 0\<rparr>,
                               net')))))"

definition decreaseRemainingTime :: "real \<Rightarrow> Individual \<Rightarrow> Individual" where
  "decreaseRemainingTime t a = a\<lparr>remaining_time := max (remaining_time a - t) 0\<rparr>"

definition increaseTripDurationTheo :: "real \<Rightarrow> Individual \<Rightarrow> Individual" where
  "increaseTripDurationTheo t a = a\<lparr>cur_trip_duration_theo := cur_trip_duration_theo a + t\<rparr>"

section \<open>Model.cpp: one step of the simulation\<close>

text \<open>
  The state of \<^verbatim>\<open>Model\<close> that \<^verbatim>\<open>step\<close> reads and writes. \<open>agents\<close> is the local
  population in the order of \<^verbatim>\<open>localBegin() ... localEnd()\<close>; \<open>proc_min_x\<close> to
  \<open>proc_max_y\<close> are the bounds of \<^verbatim>\<open>continuous_space\<close> that \<^verbatim>\<open>isInLocalBounds\<close> reads. The
  counters of type \<^verbatim>\<open>AggregateSum\<close> are integers. The recorders of link loads, snapshots,
  aggregate data and moves are write-only outputs and are left out.
\<close>

record Model =
  network :: Network
  time :: real
  time_tolerance :: real
  total_agents :: int
  total_moving_agents :: int
  total_trips_performed :: int
  total_rerouting :: int
  trips_starting_time :: "real list"
  map_node_process :: "string \<rightharpoonup> int"
  map_agents_to_move_process :: "int \<rightharpoonup> int"
  map_agent_fitness :: "int \<rightharpoonup> real"
  agents :: "Individual list"
  proc :: int
  proc_min_x :: real
  proc_max_x :: real
  proc_min_y :: real
  proc_max_y :: real

definition isInLocalBounds :: "Model \<Rightarrow> real \<Rightarrow> real \<Rightarrow> bool" where
  "isInLocalBounds m x y \<longleftrightarrow>
     proc_min_x m \<le> x \<and> proc_max_x m \<ge> x \<and> proc_min_y m \<le> y \<and> proc_max_y m \<ge> y"

text \<open>
  \<^verbatim>\<open>_map_agents_to_move_process[id] = _map_node_process[node]\<close>, executed when the agent's
  position is outside the local bounds; \<^verbatim>\<open>operator[]\<close> enters a missing node with
  process \<open>0\<close>.
\<close>

definition note_migration :: "Individual \<Rightarrow> string \<Rightarrow> Model \<Rightarrow> Model" where
  "note_migration a node m =
     (if isInLocalBounds m (ind_x a) (ind_y a) then m
      else m\<lparr>map_agents_to_move_process :=
                (map_agents_to_move_process m)(agent_id a \<mapsto>
                   (case map_node_process m node of Some p \<Rightarrow> p | None \<Rightarrow> 0)),
              map_node_process :=
                (case map_node_process m node of
                   Some p \<Rightarrow> map_node_process m
                 | None \<Rightarrow> (map_node_process m)(node \<mapsto> 0))\<rparr>)"

text \<open>
  The condition of the rerouting branch:
  \<^verbatim>\<open>getStrategy().isOptimized() == true && isRerouting(_network, _time) == true\<close>.
\<close>

definition decides_reroute :: "Individual \<Rightarrow> Network \<Rightarrow> real \<Rightarrow> error + bool" where
  "decides_reroute a net t =
     (if optimized (strategy a) then isRerouting a net t else Inr False)"

text \<open>
  The rerouting branch, entered when the condition holds: the counter is incremented, and
  when the current node has more than one outgoing link a new path avoiding the planned
  link replaces the agent's path. The result is the model, the agent and \<^verbatim>\<open>id_next_link\<close>.
\<close>

definition reroute ::
  "Model \<Rightarrow> Individual \<Rightarrow> string \<Rightarrow> (error + Model \<times> Individual \<times> string) option" where
  "reroute m a id_next_link =
     (case map_at (Links (network m)) (cur_link a) of
        Inl e \<Rightarrow> Some (Inl e)
      | Inr l \<Rightarrow>
          (case map_at (Nodes (network m)) (start_node_id l) of
             Inl e \<Rightarrow> Some (Inl e)
           | Inr n \<Rightarrow>
               if length (links_out_id n) > 1 then
                 (case trips a of
                    [] \<Rightarrow> Some (Inl BadIndex)
                  | tr # trs \<Rightarrow>
                      (case computePath_avoid (network m) (start_node_id l) (id_destination tr)
                              id_next_link True of
                         None \<Rightarrow> None
                       | Some (Inl e) \<Rightarrow> Some (Inl e)
                       | Some (Inr (new_path, net')) \<Rightarrow>
                           (case getNextLinkAndRemove (a\<lparr>path := new_path\<rparr>) of
                              Inl e \<Rightarrow> Some (Inl e)
                            | Inr (lk, a') \<Rightarrow>
                                Some (Inr (m\<lparr>total_rerouting := total_rerouting m + 1,
                                             network := net'\<rparr>,
                                           a'\<lparr>cur_link := lk\<rparr>, lk)))))
               else Some (Inr (m\<lparr>total_rerouting := total_rerouting m + 1\<rparr>, a, id_next_link))))"

text \<open>
  The end of the depart-node transition: the theoretical duration grows by the free-flow
  time, \<^verbatim>\<open>setRemainingTime(... .timeOnLink())\<close> is executed, and then
  \<^verbatim>\<open>incrementAgentOnLink\<close>.
\<close>

definition enter_link :: "Model \<Rightarrow> Individual \<Rightarrow> string \<Rightarrow> error + Model \<times> Individual" where
  "enter_link m a id_next_link =
     (case map_at (Links (network m)) id_next_link of
        Inl e \<Rightarrow> Inl e
      | Inr l \<Rightarrow>
          (case timeOnLink l of
             Inl e \<Rightarrow> Inl e
           | Inr t \<Rightarrow>
               (case incrementAgentOnLink id_next_link (network m) of
                  Inl e \<Rightarrow> Inl e
                | Inr net' \<Rightarrow>
                    Inr (m\<lparr>network := net'\<rparr>,
                         (increaseTripDurationTheo (free_flow_time l) a)\<lparr>remaining_time := t\<rparr>))))"

text \<open>The transition of an agent that is at a node.\<close>

definition start_trip :: "Model \<Rightarrow> Individual \<Rightarrow> Model \<times> Individual" where
  "start_trip m a =
     (if \<not> en_route a then
        (m\<lparr>total_moving_agents := total_moving_agents m + 1,
           trips_starting_time := trips_starting_time m @ [time m]\<rparr>,
         a\<lparr>en_route := True\<rparr>)
      else (m, a))"

definition depart_node :: "Model \<Rightarrow> Individual \<Rightarrow> (error + Model \<times> Individual) option" where
  "depart_node m a =
     (case start_trip m a of
        (m1, a1) \<Rightarrow>
          (case getNextLinkAndRemove (a1\<lparr>at_node := False\<rparr>) of
             Inl e \<Rightarrow> Some (Inl e)
           | Inr (id_next_link, a2) \<Rightarrow>
               (case decides_reroute (a2\<lparr>cur_link := id_next_link\<rparr>) (network m1) (time m1) of
                  Inl e \<Rightarrow> Some (Inl e)
                | Inr b \<Rightarrow>
                    (case (if b then reroute m1 (a2\<lparr>cur_link := id_next_link\<rparr>) id_next_link
                           else Some (Inr (m1, a2\<lparr>cur_link := id_next_link\<rparr>, id_next_link))) of
                       None \<Rightarrow> None
                     | Some (Inl e) \<Rightarrow> Some (Inl e)
                     | Some (Inr (m2, a3, lk)) \<Rightarrow> Some (enter_link m2 a3 lk)))))"

text \<open>
  The transition of an agent that is on a link. The result carries \<^verbatim>\<open>remove_agent\<close>.
\<close>

definition arrive_node :: "Model \<Rightarrow> Individual \<Rightarrow> (error + Model \<times> Individual \<times> bool) option" where
  "arrive_node m a =
     (if length (path a) > 0 then
        (case decrementAgentOnLink (cur_link a) (network m) of
           Inl e \<Rightarrow> Some (Inl e)
         | Inr net' \<Rightarrow>
             (case map_at (Links net') (cur_link a) of
                Inl e \<Rightarrow> Some (Inl e)
              | Inr l \<Rightarrow>
                  (case map_at (Nodes net') (end_node_id l) of
                     Inl e \<Rightarrow> Some (Inl e)
                   | Inr newNode \<Rightarrow>
                       Some (Inr (note_migration
                                    (a\<lparr>ind_x := node_x newNode, ind_y := node_y newNode,
                                       at_node := True\<rparr>)
                                    (end_node_id l) (m\<lparr>network := net'\<rparr>),
                                  a\<lparr>ind_x := node_x newNode, ind_y := node_y newNode,
                                    at_node := True\<rparr>,
                                  False)))))
      else
        (case trips a of
           [] \<Rightarrow> Some (Inl BadIndex)
         | tr # trs \<Rightarrow>
             if time m - starting_time tr = 0 then Some (Inl DivisionByZero)
             else
               (case decrementAgentOnLink (cur_link a)
                       (network m) of
                  Inl e \<Rightarrow> Some (Inl e)
                | Inr net' \<Rightarrow>
                    (case (m\<lparr>map_agent_fitness :=
                               (map_agent_fitness m)(agent_id a \<mapsto>
                                 (case map_agent_fitness m (agent_id a) of
                                    None \<Rightarrow> cur_trip_duration_theo a / (time m - starting_time tr)
                                  | Some f \<Rightarrow>
                                      (f + cur_trip_duration_theo a / (time m - starting_time tr))
                                      * 0.5)),
                             total_trips_performed := total_trips_performed m + 1,
                             total_moving_agents := total_moving_agents m - 1,
                             network := net'\<rparr>) of
                       m1 \<Rightarrow>
                         if length (trips a) > 1 then
                           (case setNextTrip a net' (time m) of
                              None \<Rightarrow> None
                            | Some (Inl e) \<Rightarrow> Some (Inl e)
                            | Some (Inr (a', net'')) \<Rightarrow>
                                (case trips a' of
                                   [] \<Rightarrow> Some (Inl BadIndex)
                                 | tr' # trs' \<Rightarrow>
                                     Some (Inr (note_migration a' (id_origin tr')
                                                  (m1\<lparr>network := net''\<rparr>),
                                                a', False))))
                         else Some (Inr (m1, a, True))))))"

text \<open>
  The body of the main loop for one agent: the remaining time decreases by
  \<^verbatim>\<open>global_remaining_time = 1.0f\<close>, and a transition fires when it does not exceed the
  tolerance.
\<close>

definition agent_step :: "Model \<Rightarrow> Individual \<Rightarrow> (error + Model \<times> Individual \<times> bool) option" where
  "agent_step m a =
     (if remaining_time (decreaseRemainingTime 1 a) \<le> time_tolerance m then
        (if at_node (decreaseRemainingTime 1 a) then
           (case depart_node m (decreaseRemainingTime 1 a) of
              None \<Rightarrow> None
            | Some (Inl e) \<Rightarrow> Some (Inl e)
            | Some (Inr (m', a')) \<Rightarrow> Some (Inr (m', a', False)))
         else arrive_node m (decreaseRemainingTime 1 a))
      else Some (Inr (m, decreaseRemainingTime 1 a, False)))"

text \<open>
  The main loop: \<open>todo\<close> are the agents still to visit, \<open>done\<close> the agents visited and
  kept, in order.
\<close>

fun agents_loop ::
  "Model \<Rightarrow> Individual list \<Rightarrow> Individual list \<Rightarrow> (error + Model) option" where
  "agents_loop m [] done = Some (Inr (m\<lparr>agents := done\<rparr>))"
| "agents_loop m (a # todo) done =
     (case agent_step m a of
        None \<Rightarrow> None
      | Some (Inl e) \<Rightarrow> Some (Inl e)
      | Some (Inr (m', a', remove_agent)) \<Rightarrow>
          agents_loop m' todo (if remove_agent then done else done @ [a']))"

text \<open>
  Modelled from the spec: \<^verbatim>\<open>synch_agents\<close> hands the map of agents to move to the
  Repast HPC library (\<^verbatim>\<open>balance\<close>, \<^verbatim>\<open>synchronizeAgentStatus\<close>), which is not part of the
  repository. By section 4.6 of the specification every agent in the map is shipped to its
  destination worker and removed locally; an agent whose destination is the local worker
  is kept. On a single worker no agent arrives from elsewhere.
\<close>

definition synch_agents :: "Model \<Rightarrow> Model" where
  "synch_agents m =
     m\<lparr>agents :=
         filter (\<lambda>a. case map_agents_to_move_process m (agent_id a) of
                       None \<Rightarrow> True
                     | Some p \<Rightarrow> p = proc m)
                (agents m)\<rparr>"

definition step :: "Model \<Rightarrow> (error + Model) option" where
  "step m =
     (case agents_loop (m\<lparr>map_agents_to_move_process := Map.empty, time := time m + 1\<rparr>)
             (agents m) [] of
        None \<Rightarrow> None
      | Some (Inl e) \<Rightarrow> Some (Inl e)
      | Some (Inr m') \<Rightarrow>
          Some (Inr (synch_agents (m'\<lparr>total_agents := int (length (agents m'))\<rparr>))))"

section \<open>Notions used in the statements\<close>



text \<open>The partitioning coordinates of the nodes, in iteration order.\<close>

definition partitioning_coordinates :: "Network \<Rightarrow> (string \<times> real \<times> real) list" where
  "partitioning_coordinates net = map (\<lambda>(k, n). (k, node_x n, node_y n)) (Nodes net)"

text \<open>
  \<open>links_ext ls ls'\<close>: the link table \<open>ls'\<close> holds every entry of \<open>ls\<close> unchanged, and
  every further entry is a default-constructed link under an id that \<open>ls\<close> does not have.
\<close>

definition links_ext :: "(string \<times> Link) list \<Rightarrow> (string \<times> Link) list \<Rightarrow> bool" where
  "links_ext ls ls' \<longleftrightarrow>
     set ls \<subseteq> set ls' \<and>
     (\<forall>k l. (k, l) \<in> set ls' \<longrightarrow> (k, l) \<notin> set ls \<longrightarrow>
            (\<forall>l'. (k, l') \<notin> set ls) \<and> l = Link_default) \<and>
     (distinct (map fst ls) \<longrightarrow> distinct (map fst ls'))"

text \<open>Small networks and agents on which the statements are evaluated.\<close>

definition mkNode :: "string \<Rightarrow> real \<Rightarrow> real \<Rightarrow> string list \<Rightarrow> Node" where
  "mkNode i x y outs =
     \<lparr>node_id = i, node_x = x, node_y = y, links_out_id = outs, indicators = [],
      node_x_data = x, node_y_data = y\<rparr>"

definition mkLink :: "string \<Rightarrow> string \<Rightarrow> string \<Rightarrow> real \<Rightarrow> 32 word \<Rightarrow> real \<Rightarrow> Link" where
  "mkLink i s e c n cap =
     \<lparr>link_id = i, start_node_id = s, end_node_id = e, link_length = c, n_agents = n,
      free_flow_time = c, capacity = cap, link_x = 0, link_y = 0\<rparr>"

text \<open>
  Three nodes on a line, \<open>S\<close> at 0, \<open>D\<close> at 1 and \<open>A\<close> at 100; the direct link from \<open>S\<close> to
  \<open>D\<close> costs 10, the detour through \<open>A\<close> costs 1 + 1.
\<close>

definition net_detour :: Network where
  "net_detour =
     \<lparr>Nodes = [(''A'', mkNode ''A'' 100 0 [''ad'']),
               (''D'', mkNode ''D'' 1 0 []),
               (''S'', mkNode ''S'' 0 0 [''sd'', ''sa''])],
      Links = [(''ad'', mkLink ''ad'' ''A'' ''D'' 1 0 1),
               (''sa'', mkLink ''sa'' ''S'' ''A'' 1 0 1),
               (''sd'', mkLink ''sd'' ''S'' ''D'' 10 0 1)],
      min_x = 0, max_x = 100, min_y = 0, max_y = 0\<rparr>"







section \<open>Draining a heap, and the invariants of the heap\<close>

fun hordered :: "('d, 'k::linorder) FibonacciHeapNode \<Rightarrow> bool" where
  "hordered (FNode a k d m cs) \<longleftrightarrow> (\<forall>c \<in> set cs. k \<le> myKey c \<and> hordered c)"

definition head_min :: "('d, 'k::linorder) FibonacciHeapNode list \<Rightarrow> bool" where
  "head_min rs \<longleftrightarrow> (case rs of [] \<Rightarrow> True | r # rs' \<Rightarrow> \<forall>x \<in> set rs'. myKey r \<le> myKey x)"

definition heap_ok :: "('d, 'k::linorder) FibonacciHeapNode list \<Rightarrow> bool" where
  "heap_ok rs \<longleftrightarrow> (\<forall>t \<in> set rs. hordered t) \<and> head_min rs"

definition items :: "('d, 'k) FibonacciHeapNode list \<Rightarrow> ('d \<times> 'k) multiset" where
  "items ts = mset (map (\<lambda>n. (myData n, myKey n)) (nodesF ts))"

definition opts :: "'a option list \<Rightarrow> 'a list" where
  "opts dr = concat (map (\<lambda>x. case x of None \<Rightarrow> [] | Some t \<Rightarrow> [t]) dr)"

text \<open>The multiset of trees is what matters: items of a forest depend on it only.\<close>
definition itemsM :: "('d, 'k) FibonacciHeapNode multiset \<Rightarrow> ('d \<times> 'k) multiset" where
  "itemsM M = (\<Sum>t \<in># M. items [t])"

lemma deletemin_count: "deletemin h = Inr h' \<Longrightarrow> count_h h' = count_h h - 1"
  by (auto simp: deletemin_def split: list.splits if_splits sum.splits)

function drain :: "('d, 'k::linorder) FibonacciHeap \<Rightarrow> error + ('d \<times> 'k) list" where
  "drain h =
     (if empty_fh h then Inr []
      else case minimum_fh h of
             Inl e \<Rightarrow> Inl e
           | Inr m \<Rightarrow>
               (case deletemin h of
                  Inl e \<Rightarrow> Inl e
                | Inr h' \<Rightarrow>
                    (case drain h' of
                       Inl e \<Rightarrow> Inl e
                     | Inr xs \<Rightarrow> Inr ((myData m, myKey m) # xs))))"
  by pat_completeness auto
termination
proof (relation "measure (\<lambda>h. unat (count_h h))")
  show "wf (measure (\<lambda>h. unat (count_h h)))" by simp
next
  fix h :: "('d, 'k::linorder) FibonacciHeap" and m h'
  assume "\<not> empty_fh h" "deletemin h = Inr h'"
  then have "count_h h \<noteq> 0" "count_h h' = count_h h - 1"
    by (simp_all add: empty_fh_def deletemin_count)
  then show "(h', h) \<in> measure (\<lambda>h. unat (count_h h))"
    by (simp add: unat_minus_one unat_gt_0)
qed

declare drain.simps [simp del]

datatype ('d, 'k) heap_op = Insert 'd 'k | DecreaseKey nat 'k

fun apply_ops ::
  "('d, 'k::linorder) heap_op list \<Rightarrow> ('d, 'k) FibonacciHeap \<Rightarrow> error + ('d, 'k) FibonacciHeap" where
  "apply_ops [] h = Inr h"
| "apply_ops (Insert d k # ops) h = apply_ops ops (snd (insert_fh d k h))"
| "apply_ops (DecreaseKey a k # ops) h =
     (case decreaseKey a k h of Inl e \<Rightarrow> Inl e | Inr h' \<Rightarrow> apply_ops ops h')"

definition flat :: "('d, 'k) FibonacciHeapNode list \<Rightarrow> bool" where
  "flat rs \<longleftrightarrow> (\<forall>t \<in> set rs. child t = [])"

text \<open>The state of a heap built by inserts and decrease-keys only.\<close>
definition built :: "('d, 'k::linorder) FibonacciHeap \<Rightarrow> nat \<Rightarrow> bool" where
  "built h n \<longleftrightarrow>
     flat (rootWithMinKey h) \<and> head_min (rootWithMinKey h) \<and> maxDegree h = 0 \<and>
     count_h h = of_nat (length (rootWithMinKey h)) \<and> length (rootWithMinKey h) \<le> n"

fun dmono :: "('d, 'k) FibonacciHeapNode \<Rightarrow> bool" where
  "dmono (FNode a k d m cs) \<longleftrightarrow> (\<forall>c \<in> set cs. degree c < length cs \<and> dmono c)"

definition dr_deg :: "('d, 'k) FibonacciHeapNode option list \<Rightarrow> bool" where
  "dr_deg dr \<longleftrightarrow> (\<forall>i < length dr. \<forall>t. dr ! i = Some t \<longrightarrow> degree t = i \<and> dmono t)"

definition drainable :: "('d, 'k::linorder) FibonacciHeap \<Rightarrow> bool" where
  "drainable h \<longleftrightarrow>
     heap_ok (rootWithMinKey h) \<and>
     (\<forall>t \<in> set (rootWithMinKey h). dmono t \<and> degree t \<le> maxDegree h) \<and>
     count_h h = of_nat (size (items (rootWithMinKey h))) \<and>
     size (items (rootWithMinKey h)) < 2 ^ 32"

(*HEAP-LEMMAS*)

section \<open>Properties of the heap\<close>

lemma nodesF_append: "nodesF (xs @ ys) = nodesF xs @ nodesF ys"
  by (induction xs) auto

lemma heap_ab_eq:
  "heap_ab = \<lparr>rootWithMinKey = [FNode 1 5 ''a'' False [], FNode 0 7 ''b'' False []],
              count_h = 2, maxDegree = 0, fresh = 2\<rparr>"
  by (simp add: heap_ab_def insert_fh_def FibonacciHeap_new_def)

lemma heap_c_eq:
  "heap_c = \<lparr>rootWithMinKey = [FNode 0 3 ''c'' False []],
             count_h = 1, maxDegree = 0, fresh = 1\<rparr>"
  by (simp add: heap_c_def insert_fh_def FibonacciHeap_new_def)

text \<open>
  Claim C10. \<^verbatim>\<open>merge\<close> on a receiver whose \<^verbatim>\<open>rootWithMinKey\<close> is \<^verbatim>\<open>NULL\<close> dereferences
  the null pointer, which the embedding reports as the error \<open>NullPointer\<close>. On a
  non-empty receiver it returns a heap that stores exactly the items of both heaps, whose
  count is the sum of the two counts (in \<^verbatim>\<open>unsigned int\<close> arithmetic), and whose
  \<^verbatim>\<open>minimum()\<close> is the receiver's minimum root when the other heap is empty and otherwise
  the one of the two minimum roots with the smaller key.
\<close>

theorem merge_fh_spec:
  "(rootWithMinKey h = [] \<longrightarrow> merge_fh h other = Inl NullPointer) \<and>
   (\<forall>r rs. rootWithMinKey h = r # rs \<longrightarrow>
      (\<exists>h'. merge_fh h other = Inr h' \<and>
            elems h' = elems h + elems other \<and>
            count_h h' = count_h h + count_h other \<and>
            (rootWithMinKey other = [] \<longrightarrow> minimum_fh h' = Inr r) \<and>
            (\<forall>o1. minimum_fh other = Inr o1 \<longrightarrow>
               minimum_fh h' = Inr (if myKey o1 < myKey r then o1 else r) \<and>
               (\<forall>m. minimum_fh h' = Inr m \<longrightarrow> myKey m = min (myKey r) (myKey o1)))))"
  by (cases "rootWithMinKey other")
     (auto simp: merge_fh_def elems_def minimum_fh_def nodesF_append min_def)

theorem merge_fh_spec_witness:
  "merge_fh FibonacciHeap_new heap_c = Inl NullPointer \<and>
   (\<exists>h'. merge_fh heap_ab heap_c = Inr h' \<and> count_h h' = 3 \<and>
      elems h' = {#(''a'', 5), (''b'', 7), (''c'', 3)#} \<and>
      minimum_fh h' = Inr (FNode 0 3 ''c'' False []))"
  using merge_fh_spec[of "FibonacciHeap_new :: (string, real) FibonacciHeap" heap_c]
        merge_fh_spec[of heap_ab heap_c]
  by (auto simp: heap_ab_eq heap_c_eq FibonacciHeap_new_def elems_def minimum_fh_def)

section \<open>The reroute decision\<close>

lemma c_str_id: "CHR 0x00 \<notin> set s \<Longrightarrow> c_str s = s"
  by (auto simp: c_str_def)

lemma Strategy_new_fields:
  "sin_alpha (Strategy_new alpha th) = sin alpha"
  "cos_alpha (Strategy_new alpha th) = cos alpha"
  "theta (Strategy_new alpha th) = th"
  "optimized (Strategy_new alpha th)"
  by (simp_all add: Strategy_new_def)

section \<open>The coordinate shuffle\<close>

lemma shuffle_loop_length: "length (shuffle_loop P c ns) = length ns"
  by (induction P c ns rule: shuffle_loop.induct) auto

lemma shuffle_loop_nth:
  "i < length ns \<Longrightarrow>
   shuffle_loop P c ns ! i =
     (fst (ns ! i),
      (snd (ns ! i))\<lparr>node_x_data := node_x (snd (ns ! i)), node_y_data := node_y (snd (ns ! i)),
                     node_x := real ((c + i) mod P) + 0.5, node_y := 0.5\<rparr>)"
proof (induction P c ns arbitrary: i rule: shuffle_loop.induct)
  case (1 n_proc cur_node)
  then show ?case by simp
next
  case (2 n_proc cur_node k n ns)
  then show ?case by (cases i) auto
qed

section \<open>The planners leave the links in place\<close>

lemma links_ext_refl: "links_ext ls ls"
  by (auto simp: links_ext_def)

lemma links_ext_trans: "links_ext a b \<Longrightarrow> links_ext b c \<Longrightarrow> links_ext a c"
  unfolding links_ext_def by (intro conjI allI impI; blast)

lemma set_map_insert:
  "k \<notin> fst ` set m \<Longrightarrow> set (map_insert k v m) = insert (k, v) (set m)"
  by (induction m) (auto split: if_splits)

lemma distinct_map_insert:
  "k \<notin> fst ` set m \<Longrightarrow> distinct (map fst m) \<Longrightarrow> distinct (map fst (map_insert k v m))"
  by (induction m) (auto simp: set_map_insert image_iff split: if_splits)

lemma map_index_ext:
  "map_index ls k Link_default = (l, ls') \<Longrightarrow> links_ext ls ls'"
  unfolding map_index_def links_ext_def
  by (force simp: set_map_insert distinct_map_insert map_of_eq_None_iff split: option.splits)





lemma dijkstra_relax_ext:
  "dijkstra_relax fastest d lk st = Inr st' \<Longrightarrow> links_ext (d_links st) (d_links st')"
  unfolding dijkstra_relax_def
  by (auto simp: map_index_ext split: prod.splits if_splits option.splits sum.splits)

lemma dijkstra_relax_all_ext:
  "dijkstra_relax_all fastest d lks st = Inr st' \<Longrightarrow> links_ext (d_links st) (d_links st')"
proof (induction lks arbitrary: st)
  case Nil
  then show ?case by (simp add: links_ext_refl)
next
  case (Cons lk lks)
  then show ?case
    by (auto split: sum.splits intro: links_ext_trans dest: dijkstra_relax_ext)
qed

lemma dijkstra_step_ext:
  "dijkstra_step nodes fastest st = Inr st' \<Longrightarrow> links_ext (d_links st) (d_links st')"
  unfolding dijkstra_step_def
  by (auto split: sum.splits prod.splits dest!: dijkstra_relax_all_ext)

lemma dijkstra_loop_ext:
  assumes "dijkstra_loop nodes fastest dest st = Some (Inr st')"
  shows "links_ext (d_links st) (d_links st')"
proof -
  have "\<forall>s. (Inr st' :: error + dijkstra_state) = Inr s \<longrightarrow> links_ext (d_links st) (d_links s)"
  proof (rule dijkstra_loop.raw_induct
      [where P = "\<lambda>nodes fastest dest st r. \<forall>s. r = Inr s \<longrightarrow> links_ext (d_links st) (d_links s)",
        OF _ assms])
    fix loop nodes fastest dest st r
    assume IH: "\<And>nodes fastest dest st y. loop nodes fastest dest st = Some y \<Longrightarrow>
                  \<forall>s. y = Inr s \<longrightarrow> links_ext (d_links st) (d_links s)"
      and body: "(if d_curr_node st = dest then Some (Inr st)
              else case dijkstra_step nodes fastest st of
                     Inl e \<Rightarrow> Some (Inl e)
                   | Inr st' \<Rightarrow> loop nodes fastest dest st') = Some r"
    show "\<forall>s. r = Inr s \<longrightarrow> links_ext (d_links st) (d_links s)"
    proof (cases "d_curr_node st = dest")
      case True
      with body show ?thesis by (auto simp: links_ext_refl)
    next
      case False
      with body show ?thesis
        by (auto split: sum.splits intro: links_ext_trans dest: dijkstra_step_ext IH)
    qed
  qed
  then show ?thesis by simp
qed

lemma computePath_frame:
  assumes "computePath net s d fastest = Some (Inr (p, net'))"
  shows "\<exists>ls. net' = net\<lparr>Links := ls\<rparr> \<and> links_ext (Links net) ls"
proof -
  from assms obtain st where
    loop: "dijkstra_loop (Nodes net) fastest d (dijkstra_start net s) = Some (Inr st)"
    and net': "net' = net\<lparr>Links := d_links st\<rparr>"
    by (auto simp: computePath_def split: option.splits sum.splits)
  have "d_links (dijkstra_start net s) = Links net"
    by (simp add: dijkstra_start_def split: prod.splits)
  with dijkstra_loop_ext[OF loop] net' show ?thesis by auto
qed







section \<open>Claims on the reroute decision, the shuffle and the planners\<close>




text \<open>
  Claim C9. For a positive number \<open>P\<close> of processes, \<^verbatim>\<open>shuffleNodesCoordinates\<close> returns a
  network with the same nodes in the same order, in which the node at position \<open>i\<close> has the
  coordinates \<open>(i mod P + 0.5, 0.5)\<close> and keeps its former coordinates in \<open>node_x_data\<close> and
  \<open>node_y_data\<close>; running the shuffle again on the result gives the same partitioning
  coordinates for every node.
\<close>

theorem shuffleNodesCoordinates_spec:
  assumes "0 < P"
  shows "\<exists>net'. shuffleNodesCoordinates P net = Inr net' \<and>
           length (Nodes net') = length (Nodes net) \<and>
           (\<forall>i < length (Nodes net).
              fst (Nodes net' ! i) = fst (Nodes net ! i) \<and>
              node_x (snd (Nodes net' ! i)) = real (i mod P) + 0.5 \<and>
              node_y (snd (Nodes net' ! i)) = 0.5 \<and>
              node_x_data (snd (Nodes net' ! i)) = node_x (snd (Nodes net ! i)) \<and>
              node_y_data (snd (Nodes net' ! i)) = node_y (snd (Nodes net ! i))) \<and>
           (\<exists>net''. shuffleNodesCoordinates P net' = Inr net'' \<and>
              partitioning_coordinates net'' = partitioning_coordinates net')"
proof -
  let ?net' = "net\<lparr>Nodes := shuffle_loop P 0 (Nodes net)\<rparr>"
  let ?net'' = "?net'\<lparr>Nodes := shuffle_loop P 0 (Nodes ?net')\<rparr>"
  have 1: "shuffleNodesCoordinates P net = Inr ?net'"
    using assms by (simp add: shuffleNodesCoordinates_def)
  have 2: "shuffleNodesCoordinates P ?net' = Inr ?net''"
    using assms by (simp add: shuffleNodesCoordinates_def)
  have 3: "partitioning_coordinates ?net'' = partitioning_coordinates ?net'"
    unfolding partitioning_coordinates_def
    by (rule nth_equalityI) (auto simp: shuffle_loop_length shuffle_loop_nth split: prod.splits)
  show ?thesis
    using 1 2 3 by (auto simp: shuffle_loop_length shuffle_loop_nth)
qed

theorem shuffleNodesCoordinates_spec_witness:
  "(0::nat) < 2 \<and>
   (\<exists>net'. shuffleNodesCoordinates 2 net_detour = Inr net' \<and>
      partitioning_coordinates net' = [(''A'', 0.5, 0.5), (''D'', 1.5, 0.5), (''S'', 0.5, 0.5)] \<and>
      map (\<lambda>(k, n). (node_x_data n, node_y_data n)) (Nodes net') = [(100, 0), (1, 0), (0, 0)])"
proof -
  have p: "(0::nat) < 2" by simp
  from shuffleNodesCoordinates_spec[OF p, of net_detour] obtain net' where
    "shuffleNodesCoordinates 2 net_detour = Inr net'" by blast
  then show ?thesis
    by (auto simp: shuffleNodesCoordinates_def net_detour_def partitioning_coordinates_def
        mkNode_def)
qed




lemma computePathAStar_same_node:
  "computePathAStar net source_id source_id fastest = Some (Inr ([], net))"
  by (simp add: computePathAStar_def)

lemma map_of_map_modify:
  "map_of (map_modify k f m) k' = (if k' = k then map_option f (map_of m k') else map_of m k')"
  by (induction m) (auto simp: map_modify_def)

lemma computePath_avoid_same_node:
  "map_of (Links net) lk \<noteq> None \<Longrightarrow>
   \<exists>net'. computePath_avoid net source_id source_id lk fastest = Some (Inr ([], net'))"
  by (auto simp: computePath_avoid_def computePathAStar_def map_at_def map_of_map_modify
      split: option.splits sum.splits)

text \<open>
  Claim C2. \<^verbatim>\<open>computePathAStar\<close> with equal source and destination returns the empty path
  (lemma \<open>computePathAStar_same_node\<close>), and so does the variant that avoids a link of the
  network (lemma \<open>computePath_avoid_same_node\<close>). The plain \<^verbatim>\<open>computePath\<close> does not: its
  main loop is skipped, and the reconstruction loop starts with \<^verbatim>\<open>prec.at(curr_node)\<close> on
  the empty map \<^verbatim>\<open>prec\<close>, which throws \<^verbatim>\<open>std::out_of_range\<close>, on every network.
\<close>

theorem computePath_same_node:
  "computePath net source_id source_id fastest = Some (Inl OutOfRange)"
  by (simp add: computePath_def dijkstra_loop.simps reconstruct.simps dijkstra_start_def
      split: prod.splits)

section \<open>The depart-node transition\<close>

















section \<open>The heap yields its items in key order\<close>

lemma items_Nil [simp]: "items [] = {#}" by (simp add: items_def)
lemma items_append [simp]: "items (xs @ ys) = items xs + items ys"
  by (simp add: items_def nodesF_append)
lemma items_FNode [simp]:
  "items (FNode a k d m cs # ts) = add_mset (d, k) (items cs + items ts)"
  by (simp add: items_def)

lemma items_Cons: "items (t # ts) = items [t] + items ts"
  by (cases t) simp

lemma items_set_mark [simp]: "items (set_mark b t # ts) = items (t # ts)"
  by (cases t) (simp add: set_mark_def)

lemma items_addChild: "items [addChild t u] = items [t] + items [u]"
proof (cases t)
  case (FNode a k d m cs)
  show ?thesis
  proof (cases cs)
    case Nil
    with FNode show ?thesis by (simp add: addChild_def)
  next
    case (Cons c cs')
    have "items (c # set_mark False u # cs') = items [c] + (items [u] + items cs')"
      by (metis items_Cons items_set_mark)
    with FNode Cons show ?thesis by (simp add: addChild_def items_Cons[of c cs'])
  qed
qed

lemma hordered_set_mark [simp]: "hordered (set_mark b t) = hordered t"
  by (cases t) (simp add: set_mark_def)
lemma myKey_set_mark [simp]: "myKey (set_mark b t) = myKey t"
  by (simp add: set_mark_def)
lemma myKey_addChild [simp]: "myKey (addChild t u) = myKey t"
  by (simp add: addChild_def)

lemma hordered_addChild:
  "hordered t \<Longrightarrow> hordered u \<Longrightarrow> myKey t \<le> myKey u \<Longrightarrow> hordered (addChild t u)"
  by (cases t) (auto simp: addChild_def split: list.splits)

lemma opts_update_None:
  "i < length dr \<Longrightarrow> dr ! i = Some t \<Longrightarrow> mset (opts (dr[i := None])) + {#t#} = mset (opts dr)"
proof (induction dr arbitrary: i)
  case Nil
  then show ?case by simp
next
  case (Cons x dr)
  then show ?case by (cases i) (auto simp: opts_def)
qed

lemma opts_update_Some:
  "i < length dr \<Longrightarrow> dr ! i = None \<Longrightarrow> mset (opts (dr[i := Some t])) = mset (opts dr) + {#t#}"
proof (induction dr arbitrary: i)
  case Nil
  then show ?case by simp
next
  case (Cons x dr)
  then show ?case by (cases i) (auto simp: opts_def)
qed

lemma opts_append_None [simp]: "opts (dr @ [None]) = opts dr"
  by (simp add: opts_def)

lemma opts_replicate_None [simp]: "opts (replicate n None) = []"
  by (induction n) (auto simp: opts_def)

lemma items_itemsM: "items ts = itemsM (mset ts)"
proof (induction ts)
  case Nil
  then show ?case by (simp add: itemsM_def)
next
  case (Cons t ts)
  then show ?case using items_Cons[of t ts] by (simp add: itemsM_def)
qed

declare link_roots.simps [simp del]

lemma link_roots_items:
  "link_roots dr cd cur = Inr dr' \<Longrightarrow>
   itemsM (mset (opts dr')) = itemsM (mset (opts dr)) + items [cur]"
proof (induction dr cd cur arbitrary: dr' rule: link_roots.induct)
  case (1 dr cd cur)
  show ?case
  proof (cases "length dr \<le> cd")
    case True
    with "1.prems" show ?thesis by (simp add: link_roots.simps[of dr cd cur])
  next
    case False
    then have lt: "cd < length dr" by simp
    show ?thesis
    proof (cases "dr ! cd")
      case None
      with "1.prems" False have "dr' = dr[cd := Some cur]"
        by (simp add: link_roots.simps[of dr cd cur])
      with opts_update_Some[OF lt None, of cur] show ?thesis by (simp add: itemsM_def)
    next
      case (Some other)
      let ?dr1 = "(if length dr \<le> cd + 1 then dr[cd := None] @ [None] else dr[cd := None])"
      let ?cur1 = "(if myKey cur > myKey other then addChild other cur else addChild cur other)"
      from "1.prems" False Some have rec: "link_roots ?dr1 (cd + 1) ?cur1 = Inr dr'"
        by (simp add: link_roots.simps[of dr cd cur])
      from "1.IH"[OF False Some rec]
      have "itemsM (mset (opts dr')) = itemsM (mset (opts ?dr1)) + items [?cur1]" .
      moreover have "mset (opts ?dr1) + {#other#} = mset (opts dr)"
        using opts_update_None[OF lt Some] by simp
      moreover have "items [?cur1] = items [cur] + items [other]"
        by (simp add: items_addChild)
      ultimately show ?thesis
        by (metis (no_types, lifting) add.assoc add.commute itemsM_def image_mset_single
            image_mset_union sum_mset.singleton sum_mset.union)
    qed
  qed
qed

lemma set_opts_update_None: "set (opts (dr[i := None])) \<subseteq> set (opts dr)"
proof (induction dr arbitrary: i)
  case Nil
  then show ?case by (simp add: opts_def)
next
  case (Cons x dr)
  then show ?case by (cases i) (auto simp: opts_def split: option.splits)
qed

lemma set_opts_update_Some: "set (opts (dr[i := Some t])) \<subseteq> insert t (set (opts dr))"
proof (induction dr arbitrary: i)
  case Nil
  then show ?case by (simp add: opts_def)
next
  case (Cons x dr)
  then show ?case by (cases i) (auto simp: opts_def split: option.splits)
qed

lemma nth_opts: "i < length dr \<Longrightarrow> dr ! i = Some t \<Longrightarrow> t \<in> set (opts dr)"
  by (force simp: opts_def in_set_conv_nth)

lemma link_roots_preserves:
  assumes "link_roots dr cd cur = Inr dr'"
    and "\<forall>t \<in> set (opts dr). hordered t" and "hordered cur"
  shows "\<forall>t \<in> set (opts dr'). hordered t"
  using assms
proof (induction dr cd cur arbitrary: dr' rule: link_roots.induct)
  case (1 dr cd cur)
  show ?case
  proof (cases "length dr \<le> cd")
    case True
    with "1.prems" show ?thesis by (simp add: link_roots.simps[of dr cd cur])
  next
    case False
    then have lt: "cd < length dr" by simp
    show ?thesis
    proof (cases "dr ! cd")
      case None
      with "1.prems" False have "dr' = dr[cd := Some cur]"
        by (simp add: link_roots.simps[of dr cd cur])
      with set_opts_update_Some[of dr cd cur] "1.prems" show ?thesis by auto
    next
      case (Some other)
      let ?dr1 = "(if length dr \<le> cd + 1 then dr[cd := None] @ [None] else dr[cd := None])"
      let ?cur1 = "(if myKey cur > myKey other then addChild other cur else addChild cur other)"
      from "1.prems" False Some have rec: "link_roots ?dr1 (cd + 1) ?cur1 = Inr dr'"
        by (simp add: link_roots.simps[of dr cd cur])
      have ho: "hordered other" using nth_opts[OF lt Some] "1.prems" by auto
      have a: "\<forall>t \<in> set (opts ?dr1). hordered t"
        using set_opts_update_None[of dr cd] "1.prems" by auto
      have b: "hordered ?cur1" using ho "1.prems"(3) by (auto intro!: hordered_addChild)
      from "1.IH"[OF False Some rec a b] show ?thesis .
    qed
  qed
qed

lemma consolidate_items:
  "consolidate dr ts = Inr dr' \<Longrightarrow>
   itemsM (mset (opts dr')) = itemsM (mset (opts dr)) + items ts"
proof (induction ts arbitrary: dr)
  case Nil
  then show ?case by simp
next
  case (Cons t ts)
  then obtain dr1 where 1: "link_roots dr (degree t) t = Inr dr1" and 2: "consolidate dr1 ts = Inr dr'"
    by (auto split: sum.splits)
  from Cons.IH[OF 2] link_roots_items[OF 1] show ?case
    using items_Cons[of t ts] by (simp add: ac_simps)
qed

lemma consolidate_preserves:
  "consolidate dr ts = Inr dr' \<Longrightarrow> \<forall>t \<in> set (opts dr). hordered t \<Longrightarrow>
   \<forall>t \<in> set ts. hordered t \<Longrightarrow> \<forall>t \<in> set (opts dr'). hordered t"
proof (induction ts arbitrary: dr)
  case Nil
  then show ?case by simp
next
  case (Cons t ts)
  then obtain dr1 where 1: "link_roots dr (degree t) t = Inr dr1" and 2: "consolidate dr1 ts = Inr dr'"
    by (auto split: sum.splits)
  from link_roots_preserves[OF 1] Cons.prems have "\<forall>t \<in> set (opts dr1). hordered t" by simp
  from Cons.IH[OF 2 this] Cons.prems show ?case by simp
qed

lemma mset_insertNode: "mset (insertNode n rs) = add_mset n (mset rs)"
  by (cases rs) auto

lemma head_min_insertNode: "head_min rs \<Longrightarrow> head_min (insertNode n rs)"
  by (cases rs) (auto simp: head_min_def)

lemma rebuild_mset: "mset (rebuild dr rs) = mset (opts dr) + mset rs"
proof (induction dr rs rule: rebuild.induct)
  case (1 rs)
  then show ?case by (simp add: opts_def)
next
  case (2 ds rs)
  then show ?case by (simp add: opts_def)
next
  case (3 n ds rs)
  then show ?case by (simp add: opts_def mset_insertNode)
qed

lemma rebuild_head_min: "head_min rs \<Longrightarrow> head_min (rebuild dr rs)"
  by (induction dr rs rule: rebuild.induct) (auto simp: head_min_insertNode)

lemma hordered_children: "hordered t \<Longrightarrow> c \<in> set (child t) \<Longrightarrow> hordered c \<and> myKey t \<le> myKey c"
  by (cases t) auto

lemma deletemin_heap_ok:
  assumes del: "deletemin h = Inr h'" and ok: "heap_ok (rootWithMinKey h)"
  shows "heap_ok (rootWithMinKey h')"
    and "\<exists>r rs. rootWithMinKey h = r # rs \<and>
           items (rootWithMinKey h) = add_mset (myData r, myKey r) (items (rootWithMinKey h'))"
    and "count_h h' = count_h h - 1"
proof -
  from del obtain r rs where rs: "rootWithMinKey h = r # rs"
    by (auto simp: deletemin_def split: list.splits)
  have it: "items (r # rs) = add_mset (myData r, myKey r) (items (child r @ rs))"
    by (cases r) simp
  show "count_h h' = count_h h - 1"
    using del rs by (auto simp: deletemin_def split: if_splits sum.splits)
  show "heap_ok (rootWithMinKey h')"
  proof (cases "child r @ rs = []")
    case True
    with del rs show ?thesis by (auto simp: deletemin_def heap_ok_def head_min_def split: if_splits)
  next
    case False
    with del rs obtain dr where
      c: "consolidate (replicate (maxDegree h + 250) None) (child r @ rs) = Inr dr"
      and h': "rootWithMinKey h' = rebuild dr []"
      by (auto simp: deletemin_def split: sum.splits)
    have "\<forall>t \<in> set (child r @ rs). hordered t"
      using ok rs hordered_children[of r] by (auto simp: heap_ok_def)
    with consolidate_preserves[OF c] have "\<forall>t \<in> set (opts dr). hordered t" by simp
    moreover have "set (rebuild dr []) = set (opts dr)"
      using rebuild_mset[of dr "[]"] by (metis add.right_neutral mset.simps(1) set_mset_mset)
    moreover have "head_min (rebuild dr [])" by (rule rebuild_head_min) (simp add: head_min_def)
    ultimately show ?thesis using h' by (simp add: heap_ok_def)
  qed
  show "\<exists>r rs. rootWithMinKey h = r # rs \<and>
           items (rootWithMinKey h) = add_mset (myData r, myKey r) (items (rootWithMinKey h'))"
  proof (cases "child r @ rs = []")
    case True
    with del rs it show ?thesis by (auto simp: deletemin_def split: if_splits)
  next
    case False
    with del rs obtain dr where
      c: "consolidate (replicate (maxDegree h + 250) None) (child r @ rs) = Inr dr"
      and h': "rootWithMinKey h' = rebuild dr []"
      by (auto simp: deletemin_def split: sum.splits)
    have "items (rebuild dr []) = itemsM (mset (opts dr))"
      using rebuild_mset[of dr "[]"] by (simp add: items_itemsM)
    also have "\<dots> = items (child r @ rs)"
      using consolidate_items[OF c] by (simp add: itemsM_def)
    finally show ?thesis using rs it h' by simp
  qed
qed

lemma in_items_iff: "x \<in># items ts \<longleftrightarrow> (\<exists>t \<in> set ts. x \<in># items [t])"
proof (induction ts)
  case Nil
  then show ?case by simp
next
  case (Cons t ts)
  then show ?case using items_Cons[of t ts] by auto
qed

lemma hordered_lower_bound:
  "hordered t \<Longrightarrow> (d, k) \<in># items [t] \<Longrightarrow> myKey t \<le> k"
proof (induction t arbitrary: d k)
  case (FNode a k' d' m cs)
  from FNode.prems(2) have "(d, k) = (d', k') \<or> (d, k) \<in># items cs" by simp
  then show ?case
  proof
    assume "(d, k) = (d', k')"
    then show ?thesis by simp
  next
    assume "(d, k) \<in># items cs"
    then obtain c where c: "c \<in> set cs" "(d, k) \<in># items [c]" using in_items_iff by blast
    with FNode.prems(1) have "k' \<le> myKey c" "hordered c" by auto
    with FNode.IH[OF c(1) _ c(2)] show ?thesis by simp
  qed
qed

lemma heap_ok_minimum:
  assumes "heap_ok (r # rs)" "(d, k) \<in># items (r # rs)"
  shows "myKey r \<le> k"
proof -
  from assms(2) obtain t where t: "t \<in> set (r # rs)" "(d, k) \<in># items [t]"
    using in_items_iff by blast
  with assms(1) have "hordered t" "myKey r \<le> myKey t" by (auto simp: heap_ok_def head_min_def)
  with hordered_lower_bound[OF _ t(2)] show ?thesis by simp
qed

lemma drain_sorted:
  "heap_ok (rootWithMinKey h) \<Longrightarrow> drain h = Inr xs \<Longrightarrow>
   sorted (map snd xs) \<and> set xs \<subseteq> set_mset (items (rootWithMinKey h))"
proof (induction h arbitrary: xs rule: drain.induct)
  case (1 h)
  show ?case
  proof (cases "empty_fh h")
    case True
    with "1.prems" show ?thesis by (simp add: drain.simps[of h])
  next
    case False
    with "1.prems"(2) obtain m h' ys where
      m: "minimum_fh h = Inr m" and d: "deletemin h = Inr h'" and ys: "drain h' = Inr ys"
      and xs: "xs = (myData m, myKey m) # ys"
      by (auto simp: drain.simps[of h] split: sum.splits)
    from deletemin_heap_ok[OF d "1.prems"(1)] obtain r rs where
      ok': "heap_ok (rootWithMinKey h')" and rs: "rootWithMinKey h = r # rs"
      and it: "items (rootWithMinKey h) = add_mset (myData r, myKey r) (items (rootWithMinKey h'))"
      by blast
    from m rs have mr: "m = r" by (simp add: minimum_fh_def)
    from "1.IH"[OF False m d ok' ys]
    have IH: "sorted (map snd ys)" "set ys \<subseteq> set_mset (items (rootWithMinKey h'))" by simp_all
    have "\<forall>y \<in> set ys. myKey r \<le> snd y"
    proof
      fix y assume "y \<in> set ys"
      with IH(2) it have "(fst y, snd y) \<in># items (r # rs)" using rs by auto
      from heap_ok_minimum[OF _ this] "1.prems"(1) rs show "myKey r \<le> snd y" by simp
    qed
    with IH xs mr it show ?thesis by auto
  qed
qed

lemma nodesF_flat: "flat rs \<Longrightarrow> nodesF rs = rs"
proof (induction rs)
  case Nil
  then show ?case by simp
next
  case (Cons t rs)
  then show ?case by (cases t) (auto simp: flat_def)
qed

lemma ancF_flat: "flat rs \<Longrightarrow> ancF a rs = (if a \<in> addr ` set rs then Some [] else None)"
proof (induction rs)
  case Nil
  then show ?case by simp
next
  case (Cons t rs)
  then show ?case by (cases t) (auto simp: flat_def)
qed

lemma updF_flat: "flat rs \<Longrightarrow> updF a f rs = map (\<lambda>t. if addr t = a then f t else t) rs"
proof (induction rs)
  case Nil
  then show ?case by (simp add: updF_def)
next
  case (Cons t rs)
  then show ?case by (cases t) (auto simp: flat_def updF_def)
qed

lemma set_key_sel [simp]:
  "myKey (set_key k t) = k" "addr (set_key k t) = addr t" "child (set_key k t) = child t"
  "myData (set_key k t) = myData t"
  by (simp_all add: set_key_def)

lemma hordered_flat: "child t = [] \<Longrightarrow> hordered t"
  by (cases t) simp

lemma flat_insertNode: "flat rs \<Longrightarrow> child n = [] \<Longrightarrow> flat (insertNode n rs)"
  by (cases rs) (auto simp: flat_def)

lemma length_insertNode: "length (insertNode n rs) = Suc (length rs)"
  by (cases rs) auto

lemma built_new: "built FibonacciHeap_new 0"
  by (simp add: built_def FibonacciHeap_new_def flat_def head_min_def)

lemma built_insert: "built h n \<Longrightarrow> built (snd (insert_fh d k h)) (Suc n)"
  by (auto simp: built_def insert_fh_def flat_insertNode head_min_insertNode length_insertNode)

lemma find_Some_addr: "find (\<lambda>n. addr n = a) rs = Some x \<Longrightarrow> x \<in> set rs \<and> addr x = a"
  by (auto simp: find_Some_iff)

lemma head_min_rotate:
  assumes "\<forall>x \<in> set rs. k \<le> myKey x" "x \<in> set rs" "myKey x = k" "addr x = a"
    "\<forall>y \<in> set rs. addr y = a \<longrightarrow> myKey y = k"
  shows "head_min (rotate_to a rs)"
proof -
  let ?d = "dropWhile (\<lambda>n. addr n \<noteq> a) rs"
  from assms(2,4) have "?d \<noteq> []" by (auto simp: dropWhile_eq_Nil_conv)
  then obtain y ys where d: "?d = y # ys" by (cases ?d) auto
  then have "addr y = a" using hd_dropWhile[of "\<lambda>n. addr n \<noteq> a" rs] by (metis list.sel(1) list.distinct(1))
  moreover have "y \<in> set rs" using d by (metis list.set_intros(1) set_dropWhileD)
  ultimately have "myKey y = k" using assms(5) by simp
  moreover have "set (ys @ takeWhile (\<lambda>n. addr n \<noteq> a) rs) \<subseteq> set rs"
    using d by (metis (no_types, lifting) Un_iff list.set_intros(2) set_append set_dropWhileD
        set_takeWhileD subsetI)
  ultimately show ?thesis using d assms(1) by (auto simp: rotate_to_def head_min_def)
qed

lemma length_rotate_to [simp]: "length (rotate_to a rs) = length rs"
  by (simp add: rotate_to_def) (metis add.commute length_append takeWhile_dropWhile_id)

lemma set_rotate_to [simp]: "set (rotate_to a rs) = set rs"
  by (simp add: rotate_to_def) (metis Un_commute set_append takeWhile_dropWhile_id)

lemma built_decreaseKey:
  assumes b: "built h n" and dk: "decreaseKey a k h = Inr h'"
  shows "built h' n"
proof -
  let ?rs = "rootWithMinKey h"
  let ?f = "\<lambda>t. if addr t = a then set_key k t else t"
  have fl: "flat ?rs" and hm: "head_min ?rs" using b by (simp_all add: built_def)
  from dk obtain node where look: "lookupF a ?rs = Some node" and le: "k \<le> myKey node"
    by (auto simp: decreaseKey_def split: option.splits if_splits)
  from look fl have first: "find (\<lambda>n. addr n = a) ?rs = Some node"
    by (simp add: lookupF_def nodesF_flat)
  from find_Some_addr[OF first] have node: "node \<in> set ?rs" "addr node = a" by simp_all
  then have anc: "ancF a ?rs = Some []" using fl by (simp add: ancF_flat image_iff) blast
  have upd: "updF a (set_key k) ?rs = map ?f ?rs" using fl by (rule updF_flat)
  obtain r0 rs0 where rs0: "?rs = r0 # rs0" using node by (cases ?rs) auto
  let ?r = "?f r0" and ?t = "map ?f rs0"
  have us: "map ?f ?rs = ?r # ?t" using rs0 by simp
  let ?new = "(if k < myKey ?r then rotate_to a (?r # ?t) else ?r # ?t)"
  have "decreaseKey a k h = Inr (h\<lparr>rootWithMinKey := ?new\<rparr>)"
    unfolding decreaseKey_def upd us using look le anc by (simp add: leD)
  with dk have h': "h' = h\<lparr>rootWithMinKey := ?new\<rparr>" by simp
  have us_set: "set (?r # ?t) = ?f ` set ?rs" using rs0 by simp
  have old: "\<And>y. y \<in> set ?rs \<Longrightarrow> myKey r0 \<le> myKey y"
    using hm rs0 by (auto simp: head_min_def)
  have keys_a: "\<forall>y \<in> set (?r # ?t). addr y = a \<longrightarrow> myKey y = k"
  proof (intro ballI impI)
    fix y assume y: "y \<in> set (?r # ?t)" and "addr y = a"
    from y obtain x where "x \<in> set ?rs" "y = ?f x" unfolding us_set by (rule imageE)
    with \<open>addr y = a\<close> show "myKey y = k" by (cases "addr x = a") simp_all
  qed
  have hmu: "head_min ?new"
  proof (cases "k < myKey ?r")
    case True
    then have r0a: "addr r0 \<noteq> a" by (cases "addr r0 = a") simp_all
    with True have kr0: "k < myKey r0" by simp
    have all: "\<forall>x \<in> set (?r # ?t). k \<le> myKey x"
    proof
      fix y assume "y \<in> set (?r # ?t)"
      then obtain x where x: "x \<in> set ?rs" "y = ?f x" unfolding us_set by (rule imageE)
      show "k \<le> myKey y"
      proof (cases "addr x = a")
        case True
        with x show ?thesis by simp
      next
        case False
        with x old[OF x(1)] kr0 show ?thesis by simp
      qed
    qed
    have mem: "set_key k node \<in> set (?r # ?t)"
    proof -
      have "?f node \<in> ?f ` set ?rs" using node(1) by (rule imageI)
      then show ?thesis unfolding us_set using node(2) by simp
    qed
    have "head_min (rotate_to a (?r # ?t))"
      by (rule head_min_rotate[OF all mem _ _ keys_a]) (simp_all add: node)
    with True show ?thesis by simp
  next
    case False
    have "\<forall>x \<in> set ?t. myKey ?r \<le> myKey x"
    proof
      fix y assume "y \<in> set ?t"
      then obtain x where x: "x \<in> set rs0" "y = ?f x" by auto
      then have xin: "x \<in> set ?rs" using rs0 by simp
      show "myKey ?r \<le> myKey y"
      proof (cases "addr r0 = a")
        case True
        then have "node = r0" using first rs0 by simp
        with le True x old[OF xin] show ?thesis by (cases "addr x = a") simp_all
      next
        case r0a: False
        with False have "myKey r0 \<le> k" by simp
        with r0a x old[OF xin] show ?thesis by (cases "addr x = a") simp_all
      qed
    qed
    with False show ?thesis by (simp add: head_min_def)
  qed
  have flu: "flat (?r # ?t)"
    unfolding flat_def
  proof
    fix y assume "y \<in> set (?r # ?t)"
    then obtain x where x: "x \<in> set ?rs" "y = ?f x" unfolding us_set by (rule imageE)
    with fl show "child y = []" by (cases "addr x = a") (simp_all add: flat_def)
  qed
  have fln: "flat ?new"
  proof (cases "k < myKey ?r")
    case True
    then show ?thesis using flu by (simp add: flat_def)
  next
    case False
    then show ?thesis using flu by simp
  qed
  have len: "length ?new = length ?rs"
  proof (cases "k < myKey ?r")
    case True
    then show ?thesis using rs0 by simp
  next
    case False
    then show ?thesis using rs0 by simp
  qed
  from b have "maxDegree h = 0" "count_h h = of_nat (length ?rs)" "length ?rs \<le> n"
    by (simp_all add: built_def)
  with hmu fln len show ?thesis unfolding h' built_def by simp
qed

lemma child_set_mark [simp]: "child (set_mark b t) = child t"
  by (simp add: set_mark_def)
lemma degree_set_mark [simp]: "degree (set_mark b t) = degree t"
  by (simp add: degree_def set_mark_def)
lemma dmono_set_mark [simp]: "dmono (set_mark b t) = dmono t"
  by (cases t) (simp add: set_mark_def)
lemma degree_addChild [simp]: "degree (addChild t u) = Suc (degree t)"
  by (cases t) (auto simp: addChild_def degree_def split: list.splits)

lemma dmono_addChild:
  "dmono t \<Longrightarrow> dmono u \<Longrightarrow> degree u = degree t \<Longrightarrow> dmono (addChild t u)"
  by (cases t) (auto simp: addChild_def degree_def less_Suc_eq split: list.splits)

lemma nth_update_cases:
  "j < length xs \<Longrightarrow> xs[i := x] ! j = (if i = j then x else xs ! j)"
  by (cases "i = j") auto

lemma dr_deg_update_None: "dr_deg dr \<Longrightarrow> dr_deg (dr[i := None])"
  by (auto simp: dr_deg_def nth_update_cases split: if_splits)

lemma dr_deg_append_None: "dr_deg dr \<Longrightarrow> dr_deg (dr @ [None])"
  by (auto simp: dr_deg_def nth_append split: if_splits)

lemma dr_deg_update_Some:
  "dr_deg dr \<Longrightarrow> degree t = i \<Longrightarrow> dmono t \<Longrightarrow> dr_deg (dr[i := Some t])"
  by (auto simp: dr_deg_def nth_update_cases split: if_splits)

lemma link_roots_total:
  assumes "cd < length dr" "dr_deg dr" "degree cur = cd" "dmono cur"
  shows "\<exists>dr'. link_roots dr cd cur = Inr dr' \<and> dr_deg dr' \<and> length dr \<le> length dr'"
  using assms
proof (induction dr cd cur rule: link_roots.induct)
  case (1 dr cd cur)
  then have nle: "\<not> length dr \<le> cd" by simp
  show ?case
  proof (cases "dr ! cd")
    case None
    with nle have "link_roots dr cd cur = Inr (dr[cd := Some cur])"
      by (simp add: link_roots.simps[of dr cd cur])
    with dr_deg_update_Some[OF "1.prems"(2,3,4)] show ?thesis by simp
  next
    case (Some other)
    let ?dr1 = "(if length dr \<le> cd + 1 then dr[cd := None] @ [None] else dr[cd := None])"
    let ?cur1 = "(if myKey cur > myKey other then addChild other cur else addChild cur other)"
    have eq: "link_roots dr cd cur = link_roots ?dr1 (cd + 1) ?cur1"
      using nle Some by (simp add: link_roots.simps[of dr cd cur])
    have oth: "degree other = cd" "dmono other"
      using "1.prems"(1,2) Some by (auto simp: dr_deg_def)
    have a: "cd + 1 < length ?dr1" using "1.prems"(1) by auto
    have b: "dr_deg ?dr1"
      using "1.prems"(2) by (auto intro: dr_deg_update_None dr_deg_append_None)
    have c: "degree ?cur1 = cd + 1" using oth "1.prems"(3) by simp
    have d: "dmono ?cur1" using oth "1.prems"(3,4) by (auto intro: dmono_addChild)
    from "1.IH"[OF nle Some a b c d] obtain dr' where
      "link_roots ?dr1 (cd + 1) ?cur1 = Inr dr'" "dr_deg dr'" "length ?dr1 \<le> length dr'"
      by blast
    moreover have "length dr \<le> length ?dr1" by simp
    ultimately show ?thesis using eq by (metis le_trans)
  qed
qed

lemma consolidate_total:
  assumes "dr_deg dr" "\<forall>t \<in> set ts. degree t < length dr \<and> dmono t"
  shows "\<exists>dr'. consolidate dr ts = Inr dr' \<and> dr_deg dr' \<and> length dr \<le> length dr'"
  using assms
proof (induction ts arbitrary: dr)
  case Nil
  then show ?case by simp
next
  case (Cons t ts)
  then have "degree t < length dr" "dmono t" by simp_all
  from link_roots_total[OF this(1) Cons.prems(1) refl this(2)] obtain dr1 where
    1: "link_roots dr (degree t) t = Inr dr1" "dr_deg dr1" "length dr \<le> length dr1" by blast
  have "\<forall>t \<in> set ts. degree t < length dr1 \<and> dmono t"
    using Cons.prems(2) 1(3) by auto
  from Cons.IH[OF 1(2) this] obtain dr' where
    "consolidate dr1 ts = Inr dr'" "dr_deg dr'" "length dr1 \<le> length dr'" by blast
  with 1 show ?case by (auto intro: le_trans)
qed

lemma newMaxDegree_ge: "m \<le> newMaxDegree dr d m"
proof (induction dr d m rule: newMaxDegree.induct)
  case (1 d m)
  then show ?case by simp
next
  case (2 ds d m)
  then show ?case by simp
next
  case (3 n ds d m)
  then show ?case by (auto split: if_splits intro: le_trans)
qed

lemma newMaxDegree_bound:
  "i < length dr \<Longrightarrow> dr ! i = Some t \<Longrightarrow> d + i \<le> newMaxDegree dr d m"
proof (induction dr d m arbitrary: i rule: newMaxDegree.induct)
  case (1 d m)
  then show ?case by simp
next
  case (2 ds d m)
  then show ?case by (cases i) auto
next
  case (3 n ds d m)
  show ?case
  proof (cases i)
    case 0
    have "d \<le> (if d > m then d else m)" by simp
    also have "\<dots> \<le> newMaxDegree ds (d + 1) (if d > m then d else m)" by (rule newMaxDegree_ge)
    finally show ?thesis using 0 by simp
  next
    case (Suc j)
    with "3.prems" "3.IH"[of j] show ?thesis by simp
  qed
qed

lemma in_opts_iff: "t \<in> set (opts dr) \<longleftrightarrow> (\<exists>i < length dr. dr ! i = Some t)"
  by (force simp: opts_def in_set_conv_nth split: option.splits)

lemma dmono_children: "dmono t \<Longrightarrow> c \<in> set (child t) \<Longrightarrow> dmono c \<and> degree c < degree t"
  by (cases t) (auto simp: degree_def)

lemma of_nat_32_eq_0:
  assumes "n < 2 ^ 32"
  shows "(of_nat n :: 32 word) = 0 \<longleftrightarrow> n = 0"
proof
  assume "(of_nat n :: 32 word) = 0"
  then have "unat (of_nat n :: 32 word) = 0" by simp
  then have "n mod 2 ^ 32 = 0" by (simp add: unat_of_nat)
  with assms show "n = 0" by simp
qed simp

lemma built_apply_ops:
  "apply_ops ops h = Inr h' \<Longrightarrow> built h n \<Longrightarrow> built h' (n + length ops)"
proof (induction ops h arbitrary: n rule: apply_ops.induct)
  case (1 h)
  then show ?case by simp
next
  case (2 d k ops h)
  from "2.IH"[OF _ built_insert[OF "2.prems"(2)]] "2.prems"(1) show ?case by simp
next
  case (3 a k ops h)
  from "3.prems"(1) obtain h1 where h1: "decreaseKey a k h = Inr h1" "apply_ops ops h1 = Inr h'"
    by (auto split: sum.splits)
  from "3.IH"[OF h1(1) h1(2) built_decreaseKey[OF "3.prems"(2) h1(1)]]
  have "built h' (n + length ops)" .
  then show ?case by (auto simp: built_def)
qed

end
